theory Spec2Isabelle
  imports Complex_Main "HOL-Library.Word" "HOL-Library.AList"
begin

section \<open>The ABI value tree serializer of firefly-signer (package abi)\<close>

text \<open>
  A shallow embedding of the serializer that walks a decoded ABI value tree and produces
  a JSON-ready value. Go's \<open>(value, error)\<close> returns are kept as pairs, a runtime panic
  is a result of its own, and the standard library functions the serializer calls
  (\<open>big.Int.Int64\<close>, \<open>big.Int.FillBytes\<close>, \<open>big.Int.String\<close>, \<open>strconv.FormatInt\<close>,
  \<open>fmt.Sprintf\<close>) are written out as far as the serializer uses them.
\<close>

subsection \<open>Strings of numbers\<close>

type_synonym byte = "8 word"

text \<open>The digit table of \<open>strconv\<close>, indexed by a digit below ten.\<close>

definition digit_char :: "nat \<Rightarrow> char" where
  "digit_char d = ''0123456789'' ! d"

text \<open>\<open>strconv.FormatInt(n, 10)\<close> and the verb \<open>%d\<close> on a value that is not negative.\<close>

function FormatUint10 :: "nat \<Rightarrow> string" where
  "FormatUint10 n =
     (if n < 10 then [digit_char n] else FormatUint10 (n div 10) @ [digit_char (n mod 10)])"
  by pat_completeness auto
termination
  by (relation "measure (\<lambda>n. n)") auto

declare FormatUint10.simps [simp del]

text \<open>\<open>(*big.Int).String()\<close>: the decimal digits, after a minus sign when negative.\<close>

definition big_Int_String :: "int \<Rightarrow> string" where
  "big_Int_String i =
     (if i < 0 then CHR ''-'' # FormatUint10 (nat (- i)) else FormatUint10 (nat i))"

text \<open>Reading a decimal string back, to say what a string denotes.\<close>

definition digit_val :: "char \<Rightarrow> nat" where
  "digit_val c = of_char c - 48"

definition decimal_nat :: "string \<Rightarrow> nat" where
  "decimal_nat ds = foldl (\<lambda>a c. a * 10 + digit_val c) 0 ds"

definition decimal_int :: "string \<Rightarrow> int" where
  "decimal_int ds =
     (case ds of
        [] \<Rightarrow> 0
      | c # cs \<Rightarrow> if c = CHR ''-'' then - int (decimal_nat cs) else int (decimal_nat ds))"

subsection \<open>Conversions of \<open>math/big\<close> and of the language\<close>

text \<open>
  \<open>(*big.Int).Int64()\<close> takes the low 64 bits of the magnitude as an \<open>int64\<close> and
  negates it (wrapping) when the integer is negative.
\<close>

definition Int64 :: "int \<Rightarrow> int" where
  "Int64 x =
     (let v = (word_of_int \<bar>x\<bar> :: 64 word)
      in sint (if x < 0 then - v else v))"

function bitlen :: "int \<Rightarrow> nat" where
  "bitlen n = (if n \<le> 0 then 0 else Suc (bitlen (n div 2)))"
  by pat_completeness auto
termination
  by (relation "measure nat") auto

declare bitlen.simps [simp del]

text \<open>
  The conversion \<open>float64(v)\<close> of an \<open>int64\<close>: the nearest value with a 53-bit
  significand, ties to even. The result is always integral; it is given by its exact value.
\<close>

definition float64_of_int64 :: "int \<Rightarrow> rat" where
  "float64_of_int64 v =
     (let a = \<bar>v\<bar>;
          e = bitlen a - 53;
          q = a div 2 ^ e;
          r = a mod 2 ^ e;
          q' = (if 2 * r > 2 ^ e \<or> (2 * r = 2 ^ e \<and> odd q) then q + 1 else q)
      in of_int (sgn v * (q' * 2 ^ e)))"

text \<open>
  \<open>(*big.Int).FillBytes(buf)\<close> writes the magnitude into \<open>buf\<close> from its last byte
  backwards, zero-extended, and panics when the magnitude does not fit:
  \<open>None\<close> is the panic.
\<close>

fun be_bytes :: "nat \<Rightarrow> int \<Rightarrow> byte list" where
  "be_bytes 0 a = []"
| "be_bytes (Suc n) a = be_bytes n (a div 256) @ [word_of_int a]"

definition FillBytes :: "int \<Rightarrow> nat \<Rightarrow> byte list option" where
  "FillBytes x n = (if \<bar>x\<bar> < 256 ^ n then Some (be_bytes n \<bar>x\<bar>) else None)"

text \<open>The number a byte sequence denotes, most significant byte first.\<close>

definition be_value :: "byte list \<Rightarrow> int" where
  "be_value bs = foldl (\<lambda>a b. a * 256 + uint b) 0 bs"

subsection \<open>The value tree and the output\<close>

text \<open>
  The output is Go's \<open>interface{}\<close> as the serializer fills it: \<open>nil\<close>, \<open>bool\<close>,
  \<open>string\<close>, \<open>float64\<close> (a finite one, by its exact value), \<open>json.Number\<close>,
  \<open>[]interface{}\<close> and \<open>map[string]interface{}\<close>. A map is an association list with
  one entry for each key, read through \<open>map_of\<close>; its order carries no meaning.
\<close>

datatype json =
    JNil
  | JBool bool
  | JString string
  | JFloat64 rat
  | JNumber string
  | JArray "json list"
  | JObject "(string \<times> json) list"

text \<open>A \<open>*big.Float\<close>, as significand and binary exponent; no strategy here looks inside.\<close>

datatype big_Float = BigFloat (mant: int) (exp2: int)

text \<open>The dynamic type and value held by \<open>ComponentValue.Value\<close>, an \<open>interface{}\<close>.\<close>

datatype go_value =
    VNil
  | VBigInt int
  | VBigFloat big_Float
  | VBytes "byte list"
  | VString string
  | VOther string

text \<open>
  Modelled from the spec: the declaration of \<open>ComponentType\<close> and of its constants is
  not among the sources. The four variants are the ones the walker names; the type is an
  integer type, so a descriptor can report any other variant.
\<close>

datatype ComponentType =
    ElementaryComponent
  | FixedArrayComponent
  | DynamicArrayComponent
  | TupleComponent
  | OtherComponent int

text \<open>
  Modelled from the spec: the declarations of the elementary types are not among the
  sources. The nine kinds are the ones \<open>serializeElementaryType\<close> names; any other
  value a descriptor reports, \<open>nil\<close> included, is a kind it does not know.
\<close>

datatype ElementaryTypeInfo =
    ElementaryTypeInt
  | ElementaryTypeUint
  | ElementaryTypeAddress
  | ElementaryTypeBool
  | ElementaryTypeFixed
  | ElementaryTypeUfixed
  | ElementaryTypeBytes
  | ElementaryTypeFunction
  | ElementaryTypeString
  | ElementaryTypeOther string

text \<open>
  Modelled from the spec: the interface \<open>TypeComponent\<close> is not among the sources. A
  descriptor is what the four methods the walker calls on it return:
  \<open>ComponentType()\<close>, \<open>ElementaryType()\<close>, \<open>KeyName()\<close> (the field name, possibly
  empty) and \<open>String()\<close> (the canonical type signature), the last as \<open>TypeString\<close>.
\<close>

record TypeComponent =
  ComponentType :: ComponentType
  ElementaryType :: ElementaryTypeInfo
  KeyName :: string
  TypeString :: string

text \<open>
  Modelled from the spec: the struct \<open>ComponentValue\<close> is not among the sources. A
  node has a descriptor, which may be \<open>nil\<close>, a decoded value and its children in
  order.
\<close>

datatype ComponentValue =
  ComponentValue (Component: "TypeComponent option") (Value: go_value)
    (Children: "ComponentValue list")

text \<open>
  Modelled from the spec: the message keys of \<open>signermsgs\<close> that the serializer uses
  are not among the sources. An error is a message key with its parameters, as
  \<open>i18n.NewError\<close> receives them; \<open>MsgBadABITypeComponent\<close> is raised with the node
  or with its descriptor.
\<close>

datatype error =
    MsgBadABITypeComponentValue ComponentValue
  | MsgBadABITypeComponent TypeComponent
  | MsgUnknownABIElementaryType ElementaryTypeInfo string
  | MsgUnknownTupleSerializer int

text \<open>The runtime panics the serializer can run into.\<close>

datatype panic = InterfaceConversion | FillBytesBufferTooSmall | NilPointerDereference

text \<open>
  What a call gives back: the pair \<open>(value, error)\<close> of a Go return, where error
  \<open>None\<close> is \<open>nil\<close>, or a panic that unwinds through the callers.
\<close>

datatype 'a ret = Return 'a "error option" | Panicked panic

subsection \<open>The serializer and its strategies\<close>

text \<open>
  The options of a \<open>Serializer\<close>; field \<open>s_x\<close> is the source's field \<open>x\<close>.
  \<open>FormattingMode\<close> is an \<open>int\<close>, so any integer can be set as the mode; the address
  strategy may be \<open>nil\<close>; the loop index given to the name generator is never negative.
\<close>

type_synonym FormattingMode = int

definition FormatAsObjects :: FormattingMode where
  "FormatAsObjects = 0"

definition FormatAsFlatArrays :: FormattingMode where
  "FormatAsFlatArrays = 1"

definition FormatAsSelfDescribingArrays :: FormattingMode where
  "FormatAsSelfDescribingArrays = 2"

record Serializer =
  s_ts :: FormattingMode
  s_is :: "int \<Rightarrow> json"
  s_fs :: "big_Float \<Rightarrow> json"
  s_bs :: "byte list \<Rightarrow> json"
  s_dn :: "nat \<Rightarrow> string"
  s_ad :: "(byte list \<Rightarrow> json) option"
  s_pretty :: bool

definition maxSafeJSONNumberInt :: int where
  "maxSafeJSONNumberInt = 9007199254740991"

definition minSafeJSONNumberInt :: int where
  "minSafeJSONNumberInt = - 9007199254740991"

definition Base10StringIntSerializer :: "int \<Rightarrow> json" where
  "Base10StringIntSerializer i = JString (big_Int_String i)"

definition JSONNumberIntSerializer :: "int \<Rightarrow> json" where
  "JSONNumberIntSerializer i = JNumber (big_Int_String i)"

definition NumberIfFitsOrBase10StringIntSerializer :: "int \<Rightarrow> json" where
  "NumberIfFitsOrBase10StringIntSerializer i =
     (if i > maxSafeJSONNumberInt \<or> i < minSafeJSONNumberInt
      then JString (big_Int_String i)
      else JFloat64 (float64_of_int64 (Int64 i)))"

definition hex_char :: "nat \<Rightarrow> char" where
  "hex_char d = ''0123456789abcdef'' ! d"

definition hex_EncodeToString :: "byte list \<Rightarrow> string" where
  "hex_EncodeToString b =
     concat (map (\<lambda>x. [hex_char (unat x div 16), hex_char (unat x mod 16)]) b)"

definition HexByteSerializer :: "byte list \<Rightarrow> json" where
  "HexByteSerializer b = JString (hex_EncodeToString b)"

definition HexByteSerializer0xPrefix :: "byte list \<Rightarrow> json" where
  "HexByteSerializer0xPrefix b = JString (''0x'' @ hex_EncodeToString b)"

definition NumericDefaultNameGenerator :: "nat \<Rightarrow> string" where
  "NumericDefaultNameGenerator idx = FormatUint10 idx"

text \<open>
  \<open>NewSerializer\<close>; the decimal formatting of a \<open>big.Float\<close> is left to the
  argument, which stands for \<open>Base10StringFloatSerializer\<close>.
\<close>

definition NewSerializer :: "(big_Float \<Rightarrow> json) \<Rightarrow> Serializer" where
  "NewSerializer base10StringFloatSerializer =
     \<lparr> s_ts = FormatAsObjects,
       s_is = Base10StringIntSerializer,
       s_fs = base10StringFloatSerializer,
       s_bs = HexByteSerializer,
       s_dn = NumericDefaultNameGenerator,
       s_ad = None,
       s_pretty = False \<rparr>"

subsection \<open>The walker\<close>

text \<open>
  The single-value type assertion \<open>cv.Value.(T)\<close> panics when the dynamic type of the
  value is not \<open>T\<close>; so does a method call on a \<open>nil\<close> descriptor.
\<close>

definition serializeElementaryType :: "Serializer \<Rightarrow> string \<Rightarrow> ComponentValue \<Rightarrow> json ret" where
  "serializeElementaryType s breadcrumbs cv =
     (case Component cv of
        None \<Rightarrow> Panicked NilPointerDereference
      | Some c \<Rightarrow>
         (case ElementaryType c of
            ElementaryTypeInt \<Rightarrow>
              (case Value cv of VBigInt i \<Rightarrow> Return (s_is s i) None
               | _ \<Rightarrow> Panicked InterfaceConversion)
          | ElementaryTypeUint \<Rightarrow>
              (case Value cv of VBigInt i \<Rightarrow> Return (s_is s i) None
               | _ \<Rightarrow> Panicked InterfaceConversion)
          | ElementaryTypeAddress \<Rightarrow>
              (case Value cv of
                 VBigInt i \<Rightarrow>
                   (case FillBytes i 20 of
                      None \<Rightarrow> Panicked FillBytesBufferTooSmall
                    | Some addr \<Rightarrow>
                       (case s_ad s of
                          None \<Rightarrow> Return (s_bs s addr) None
                        | Some ad \<Rightarrow> Return (ad addr) None))
               | _ \<Rightarrow> Panicked InterfaceConversion)
          | ElementaryTypeBool \<Rightarrow>
              (case Value cv of VBigInt i \<Rightarrow> Return (JBool (Int64 i = 1)) None
               | _ \<Rightarrow> Panicked InterfaceConversion)
          | ElementaryTypeFixed \<Rightarrow>
              (case Value cv of VBigFloat f \<Rightarrow> Return (s_fs s f) None
               | _ \<Rightarrow> Panicked InterfaceConversion)
          | ElementaryTypeUfixed \<Rightarrow>
              (case Value cv of VBigFloat f \<Rightarrow> Return (s_fs s f) None
               | _ \<Rightarrow> Panicked InterfaceConversion)
          | ElementaryTypeBytes \<Rightarrow>
              (case Value cv of VBytes b \<Rightarrow> Return (s_bs s b) None
               | _ \<Rightarrow> Panicked InterfaceConversion)
          | ElementaryTypeFunction \<Rightarrow>
              (case Value cv of VBytes b \<Rightarrow> Return (s_bs s b) None
               | _ \<Rightarrow> Panicked InterfaceConversion)
          | ElementaryTypeString \<Rightarrow>
              (case Value cv of VString x \<Rightarrow> Return (JString x) None
               | _ \<Rightarrow> Panicked InterfaceConversion)
          | ElementaryTypeOther k \<Rightarrow>
              Return JNil (Some (MsgUnknownABIElementaryType (ElementaryTypeOther k) breadcrumbs))))"

text \<open>
  The verb \<open>%s\<close> of \<open>fmt.Sprintf\<close> on what \<open>vm["name"]\<close> holds: the string itself,
  or the marker \<open>fmt\<close> prints for a \<open>nil\<close> operand when the key is absent. The entry
  never holds anything but a string.
\<close>

fun Sprintf_s :: "json option \<Rightarrow> string" where
  "Sprintf_s (Some (JString x)) = x"
| "Sprintf_s _ = ''%!s(<nil>)''"

text \<open>
  Each \<open>for i, child := range cv.Children\<close> loop is a recursion over the children
  that are left, with the index \<open>i\<close> and the output \<open>out\<close> built so far. The array
  loops start from \<open>make([]interface{}, len(cv.Children))\<close>, which is all \<open>nil\<close>.
\<close>

function (sequential) walkOutput :: "Serializer \<Rightarrow> string \<Rightarrow> ComponentValue \<Rightarrow> json ret"
  and serializeArray :: "Serializer \<Rightarrow> string \<Rightarrow> ComponentValue \<Rightarrow> json ret"
  and serializeArray_loop ::
    "Serializer \<Rightarrow> string \<Rightarrow> ComponentValue list \<Rightarrow> nat \<Rightarrow> json list \<Rightarrow> json ret"
  and serializeTuple :: "Serializer \<Rightarrow> string \<Rightarrow> ComponentValue \<Rightarrow> json ret"
  and objects_loop ::
    "Serializer \<Rightarrow> string \<Rightarrow> ComponentValue list \<Rightarrow> nat \<Rightarrow> (string \<times> json) list \<Rightarrow> json ret"
  and flatArrays_loop ::
    "Serializer \<Rightarrow> string \<Rightarrow> ComponentValue list \<Rightarrow> nat \<Rightarrow> json list \<Rightarrow> json ret"
  and selfDescribing_loop ::
    "Serializer \<Rightarrow> string \<Rightarrow> ComponentValue list \<Rightarrow> nat \<Rightarrow> json list \<Rightarrow> json ret"
where
  "walkOutput s breadcrumbs (ComponentValue tc val children) =
     (case tc of
        None \<Rightarrow>
          Return JNil (Some (MsgBadABITypeComponentValue (ComponentValue tc val children)))
      | Some c \<Rightarrow>
         (case ComponentType c of
            ElementaryComponent \<Rightarrow>
              serializeElementaryType s breadcrumbs (ComponentValue tc val children)
          | FixedArrayComponent \<Rightarrow>
              serializeArray s breadcrumbs (ComponentValue tc val children)
          | DynamicArrayComponent \<Rightarrow>
              serializeArray s breadcrumbs (ComponentValue tc val children)
          | TupleComponent \<Rightarrow>
              serializeTuple s breadcrumbs (ComponentValue tc val children)
          | OtherComponent t \<Rightarrow> Return JNil (Some (MsgBadABITypeComponent c))))"
| "serializeArray s breadcrumbs (ComponentValue tc val children) =
     serializeArray_loop s breadcrumbs children 0 (replicate (length children) JNil)"
| "serializeArray_loop s breadcrumbs [] i out = Return (JArray out) None"
| "serializeArray_loop s breadcrumbs (child # rest) i out =
     (case walkOutput s (breadcrumbs @ ''['' @ FormatUint10 i @ '']'') child of
        Panicked p \<Rightarrow> Panicked p
      | Return v (Some err) \<Rightarrow> Return JNil (Some err)
      | Return v None \<Rightarrow> serializeArray_loop s breadcrumbs rest (Suc i) (out[i := v]))"
| "serializeTuple s breadcrumbs (ComponentValue tc val children) =
     (if s_ts s = FormatAsObjects then
        objects_loop s breadcrumbs children 0 []
      else if s_ts s = FormatAsFlatArrays then
        flatArrays_loop s breadcrumbs children 0 (replicate (length children) JNil)
      else if s_ts s = FormatAsSelfDescribingArrays then
        selfDescribing_loop s breadcrumbs children 0 (replicate (length children) JNil)
      else Return JNil (Some (MsgUnknownTupleSerializer (s_ts s))))"
| "objects_loop s breadcrumbs [] i out = Return (JObject out) None"
| "objects_loop s breadcrumbs (child # rest) i out =
     (case Component child of
        None \<Rightarrow> objects_loop s breadcrumbs rest (Suc i) out
      | Some c \<Rightarrow>
         (let name = (if KeyName c = [] then s_dn s i else KeyName c) in
          case walkOutput s (breadcrumbs @ ''['' @ name @ '']'') child of
            Panicked p \<Rightarrow> Panicked p
          | Return v (Some err) \<Rightarrow> Return JNil (Some err)
          | Return v None \<Rightarrow>
              objects_loop s breadcrumbs rest (Suc i) (AList.update name v out)))"
| "flatArrays_loop s breadcrumbs [] i out = Return (JArray out) None"
| "flatArrays_loop s breadcrumbs (child # rest) i out =
     (case walkOutput s (breadcrumbs @ ''['' @ FormatUint10 i @ '']'') child of
        Panicked p \<Rightarrow> Panicked p
      | Return v (Some err) \<Rightarrow> Return JNil (Some err)
      | Return v None \<Rightarrow> flatArrays_loop s breadcrumbs rest (Suc i) (out[i := v]))"
| "selfDescribing_loop s breadcrumbs [] i out = Return (JArray out) None"
| "selfDescribing_loop s breadcrumbs (child # rest) i out =
     (let vm0 = (case Component child of
                   None \<Rightarrow> []
                 | Some c \<Rightarrow>
                     AList.update ''type'' (JString (TypeString c))
                       (AList.update ''name'' (JString (KeyName c)) []));
          vm = (if map_of vm0 ''name'' = Some (JString [])
                then AList.update ''name'' (JString (s_dn s i)) vm0 else vm0)
      in case walkOutput s (breadcrumbs @ ''['' @ Sprintf_s (map_of vm ''name'') @ '']'') child of
           Panicked p \<Rightarrow> Panicked p
         | Return v (Some err) \<Rightarrow> Return JNil (Some err)
         | Return v None \<Rightarrow>
             selfDescribing_loop s breadcrumbs rest (Suc i)
               (out[i := JObject (AList.update ''value'' v vm)]))"

  by pat_completeness auto
termination
  by (relation "measure
        (case_sum
          (case_sum (\<lambda>(s, b, cv). 3 * size cv + 2)
            (case_sum (\<lambda>(s, b, cv). 3 * size cv + 1)
               (\<lambda>(s, b, cs, i, out). 3 * size_list size cs)))
          (case_sum
            (case_sum (\<lambda>(s, b, cv). 3 * size cv + 1)
               (\<lambda>(s, b, cs, i, out). 3 * size_list size cs))
            (case_sum (\<lambda>(s, b, cs, i, out). 3 * size_list size cs)
               (\<lambda>(s, b, cs, i, out). 3 * size_list size cs))))")
     simp_all

text \<open>
  The entry points. \<open>json.Marshal\<close> and \<open>json.MarshalIndent\<close> belong to the standard
  library and are arguments here; a \<open>nil\<close> byte slice is \<open>None\<close>.
\<close>

definition SerializeInterfaceCtx :: "Serializer \<Rightarrow> ComponentValue \<Rightarrow> json ret" where
  "SerializeInterfaceCtx s cv = walkOutput s [] cv"

definition SerializeJSONCtx ::
  "(json \<Rightarrow> byte list option \<times> error option) \<Rightarrow> (json \<Rightarrow> byte list option \<times> error option) \<Rightarrow>
   Serializer \<Rightarrow> ComponentValue \<Rightarrow> (byte list option) ret" where
  "SerializeJSONCtx json_Marshal json_MarshalIndent s cv =
     (case walkOutput s [] cv of
        Panicked p \<Rightarrow> Panicked p
      | Return v (Some err) \<Rightarrow> Return None (Some err)
      | Return v None \<Rightarrow>
          (if s_pretty s
           then (case json_MarshalIndent v of (b, e) \<Rightarrow> Return b e)
           else (case json_Marshal v of (b, e) \<Rightarrow> Return b e)))"

subsection \<open>Notions in which the properties are stated\<close>

text \<open>
  The dynamic type that the branch of \<open>serializeElementaryType\<close> for a kind asserts of
  the decoded value. A kind outside the nine known ones asserts nothing.
\<close>

fun value_has_shape :: "ElementaryTypeInfo \<Rightarrow> go_value \<Rightarrow> bool" where
  "value_has_shape (ElementaryTypeOther k) v = True"
| "value_has_shape ElementaryTypeFixed v = (case v of VBigFloat f \<Rightarrow> True | _ \<Rightarrow> False)"
| "value_has_shape ElementaryTypeUfixed v = (case v of VBigFloat f \<Rightarrow> True | _ \<Rightarrow> False)"
| "value_has_shape ElementaryTypeBytes v = (case v of VBytes x \<Rightarrow> True | _ \<Rightarrow> False)"
| "value_has_shape ElementaryTypeFunction v = (case v of VBytes x \<Rightarrow> True | _ \<Rightarrow> False)"
| "value_has_shape ElementaryTypeString v = (case v of VString x \<Rightarrow> True | _ \<Rightarrow> False)"
| "value_has_shape k v = (case v of VBigInt i \<Rightarrow> True | _ \<Rightarrow> False)"

text \<open>The breadcrumb among the parameters of an error, when it has one.\<close>

fun error_breadcrumb :: "error \<Rightarrow> string option" where
  "error_breadcrumb (MsgUnknownABIElementaryType k b) = Some b"
| "error_breadcrumb e = None"

text \<open>
  The breadcrumbs the encoders hand to \<open>walkOutput\<close> for child \<open>i\<close>:
  \<open>fmt.Sprintf("%s[%d]", breadcrumbs, i)\<close> in the array encoder and the flat tuple
  layout, \<open>fmt.Sprintf("%s[%s]", breadcrumbs, name)\<close> in the two named layouts, where
  the name is the declared one or, when that is empty, the generated one.
\<close>

definition index_crumb :: "string \<Rightarrow> nat \<Rightarrow> string" where
  "index_crumb b i = b @ ''['' @ FormatUint10 i @ '']''"

definition name_crumb :: "string \<Rightarrow> string \<Rightarrow> string" where
  "name_crumb b n = b @ ''['' @ n @ '']''"

definition resolved_name :: "Serializer \<Rightarrow> nat \<Rightarrow> TypeComponent \<Rightarrow> string" where
  "resolved_name s i c = (if KeyName c = [] then s_dn s i else KeyName c)"

definition tuple_crumb :: "Serializer \<Rightarrow> string \<Rightarrow> nat \<Rightarrow> ComponentValue \<Rightarrow> string" where
  "tuple_crumb s b i child =
     (if s_ts s = FormatAsFlatArrays then index_crumb b i
      else case Component child of
             None \<Rightarrow> name_crumb b ''%!s(<nil>)''
           | Some c \<Rightarrow> name_crumb b (resolved_name s i c))"

text \<open>
  The children a tuple walk visits: all of them, except that the layout as objects
  passes over a child without a descriptor.
\<close>

definition tuple_visits :: "Serializer \<Rightarrow> ComponentValue \<Rightarrow> bool" where
  "tuple_visits s child = (s_ts s \<noteq> FormatAsObjects \<or> Component child \<noteq> None)"

definition known_mode :: "FormattingMode \<Rightarrow> bool" where
  "known_mode m =
     (m = FormatAsObjects \<or> m = FormatAsFlatArrays \<or> m = FormatAsSelfDescribingArrays)"

text \<open>Child \<open>j\<close> of a tuple has a descriptor, and its resolved name is \<open>k\<close>.\<close>

definition field_named :: "Serializer \<Rightarrow> nat \<Rightarrow> ComponentValue \<Rightarrow> string \<Rightarrow> bool" where
  "field_named s j child k =
     (case Component child of None \<Rightarrow> False | Some c \<Rightarrow> resolved_name s j c = k)"

text \<open>
  The object that describes one child in the self-describing layout: its name, the
  signature of its type and its encoded value.
\<close>

definition selfDescribing_entry :: "Serializer \<Rightarrow> nat \<Rightarrow> TypeComponent \<Rightarrow> json \<Rightarrow> json" where
  "selfDescribing_entry s j d v =
     JObject [(''name'', JString (resolved_name s j d)), (''type'', JString (TypeString d)),
              (''value'', v)]"

text \<open>
  Following a walk down the tree. A node is encoded under a breadcrumb when the walker
  returns a value and no error for it. An array node walks all its children under the
  breadcrumb of their index; a tuple node in a known mode walks the children the mode
  visits, under the breadcrumb of the mode. \<open>walk_reaches\<close> follows a list of child
  indices from a node for as long as, at each node on the way, the children walked before
  the chosen one are encoded, and gives the breadcrumb and the node it arrives at.
\<close>

definition encodes :: "Serializer \<Rightarrow> string \<Rightarrow> ComponentValue \<Rightarrow> bool" where
  "encodes s b cv = (case walkOutput s b cv of Return v None \<Rightarrow> True | _ \<Rightarrow> False)"

definition child_walked :: "Serializer \<Rightarrow> TypeComponent \<Rightarrow> ComponentValue \<Rightarrow> bool" where
  "child_walked s d child =
     (ComponentType d = FixedArrayComponent \<or> ComponentType d = DynamicArrayComponent \<or>
      (ComponentType d = TupleComponent \<and> known_mode (s_ts s) \<and> tuple_visits s child))"

definition child_crumb :: "Serializer \<Rightarrow> string \<Rightarrow> TypeComponent \<Rightarrow> nat \<Rightarrow> ComponentValue \<Rightarrow> string" where
  "child_crumb s b d i child =
     (if ComponentType d = TupleComponent then tuple_crumb s b i child else index_crumb b i)"

fun walk_reaches ::
  "Serializer \<Rightarrow> string \<Rightarrow> ComponentValue \<Rightarrow> nat list \<Rightarrow> (string \<times> ComponentValue) option" where
  "walk_reaches s b cv [] = Some (b, cv)"
| "walk_reaches s b cv (i # path) =
     (case Component cv of
        None \<Rightarrow> None
      | Some d \<Rightarrow>
          if i < length (Children cv) \<and> child_walked s d (Children cv ! i) \<and>
             list_all (\<lambda>j. child_walked s d (Children cv ! j) \<longrightarrow>
                          encodes s (child_crumb s b d j (Children cv ! j)) (Children cv ! j))
               [0..<i]
          then walk_reaches s (child_crumb s b d i (Children cv ! i)) (Children cv ! i) path
          else None)"

subsection \<open>Inputs on which the theorems are exercised\<close>

definition elementary :: "ElementaryTypeInfo \<Rightarrow> string \<Rightarrow> string \<Rightarrow> TypeComponent" where
  "elementary k name sig =
     \<lparr> ComponentType = ElementaryComponent, ElementaryType = k, KeyName = name,
       TypeString = sig \<rparr>"

definition composite :: "ComponentType \<Rightarrow> string \<Rightarrow> string \<Rightarrow> TypeComponent" where
  "composite t name sig =
     \<lparr> ComponentType = t, ElementaryType = ElementaryTypeOther [], KeyName = name,
       TypeString = sig \<rparr>"

definition leaf :: "ElementaryTypeInfo \<Rightarrow> string \<Rightarrow> string \<Rightarrow> go_value \<Rightarrow> ComponentValue" where
  "leaf k name sig v = ComponentValue (Some (elementary k name sig)) v []"

definition node :: "ComponentType \<Rightarrow> string \<Rightarrow> string \<Rightarrow> ComponentValue list \<Rightarrow> ComponentValue" where
  "node t name sig cs = ComponentValue (Some (composite t name sig)) VNil cs"

definition serializer :: "FormattingMode \<Rightarrow> Serializer" where
  "serializer m = (NewSerializer (\<lambda>f. JString ''float'')) \<lparr> s_ts := m \<rparr>"

definition example_array :: ComponentValue where
  "example_array =
     node DynamicArrayComponent ''xs'' ''string[]''
       [leaf ElementaryTypeString [] ''string'' (VString ''ok''),
        leaf (ElementaryTypeOther ''map'') [] ''map'' VNil,
        leaf ElementaryTypeInt [] ''int256'' (VString ''boom'')]"

definition example_tuple :: ComponentValue where
  "example_tuple =
     node TupleComponent [] ''(uint256,string[],int256)''
       [leaf ElementaryTypeUint ''a'' ''uint256'' (VBigInt 5),
        ComponentValue None VNil [],
        example_array,
        leaf ElementaryTypeInt ''z'' ''int256'' (VString ''bad'')]"

lemmas example_defs =
  elementary_def composite_def leaf_def node_def serializer_def NewSerializer_def
  FormatAsObjects_def FormatAsFlatArrays_def FormatAsSelfDescribingArrays_def
  Base10StringIntSerializer_def HexByteSerializer_def NumericDefaultNameGenerator_def

section \<open>Properties\<close>

subsection \<open>The flat tuple layout and the array encoder\<close>

lemma flatArrays_loop_eq_serializeArray_loop:
  "flatArrays_loop s b cs i out = serializeArray_loop s b cs i out"
  by (induction cs arbitrary: i out) (simp_all split: ret.splits option.splits)

text \<open>
  C10. In the mode \<open>FormatAsFlatArrays\<close> the tuple encoder gives, on every node and
  under every breadcrumb, exactly what the array encoder gives on that node: the same
  value, the same error, the same panic.
\<close>

theorem flatArrays_tuple_is_array:
  "s_ts s = FormatAsFlatArrays \<Longrightarrow> serializeTuple s b cv = serializeArray s b cv"
  by (cases cv)
     (simp add: flatArrays_loop_eq_serializeArray_loop FormatAsFlatArrays_def
        FormatAsObjects_def)

theorem flatArrays_tuple_is_array_witness:
  "s_ts (serializer 1) = FormatAsFlatArrays \<and>
   serializeTuple (serializer 1) ''x''
     (node TupleComponent [] ''(uint256,bool)''
        [leaf ElementaryTypeUint ''a'' ''uint256'' (VBigInt 12),
         leaf (ElementaryTypeOther ''map'') [] ''map'' VNil]) =
   Return JNil (Some (MsgUnknownABIElementaryType (ElementaryTypeOther ''map'') ''x[1]''))"
proof -
  have m: "s_ts (serializer 1) = FormatAsFlatArrays"
    by (simp add: example_defs)
  have "serializeArray (serializer 1) ''x''
     (node TupleComponent [] ''(uint256,bool)''
        [leaf ElementaryTypeUint ''a'' ''uint256'' (VBigInt 12),
         leaf (ElementaryTypeOther ''map'') [] ''map'' VNil]) =
   Return JNil (Some (MsgUnknownABIElementaryType (ElementaryTypeOther ''map'') ''x[1]''))"
    by (simp add: example_defs serializeElementaryType_def FormatUint10.simps digit_char_def)
  with m flatArrays_tuple_is_array [OF m] show ?thesis
    by simp
qed

subsection \<open>Formatting modes that are not known\<close>

text \<open>
  C8. When the configured formatting mode is none of \<open>FormatAsObjects\<close>,
  \<open>FormatAsFlatArrays\<close> and \<open>FormatAsSelfDescribingArrays\<close>, the tuple encoder returns
  the error \<open>MsgUnknownTupleSerializer\<close> with that mode and a \<open>nil\<close> value; as it
  returns, it does not panic.
\<close>

theorem unknown_mode_is_an_error:
  "s_ts s \<noteq> FormatAsObjects \<Longrightarrow> s_ts s \<noteq> FormatAsFlatArrays \<Longrightarrow>
   s_ts s \<noteq> FormatAsSelfDescribingArrays \<Longrightarrow>
   serializeTuple s b cv = Return JNil (Some (MsgUnknownTupleSerializer (s_ts s)))"
  by (cases cv) simp

theorem unknown_mode_is_an_error_witness:
  "s_ts (serializer (- 1)) \<noteq> FormatAsObjects \<and>
   s_ts (serializer (- 1)) \<noteq> FormatAsFlatArrays \<and>
   s_ts (serializer (- 1)) \<noteq> FormatAsSelfDescribingArrays \<and>
   serializeTuple (serializer (- 1)) []
     (node TupleComponent [] ''(string)'' [leaf ElementaryTypeString ''a'' ''string'' VNil]) =
   Return JNil (Some (MsgUnknownTupleSerializer (- 1)))"
proof -
  have m: "s_ts (serializer (- 1)) \<noteq> FormatAsObjects"
    "s_ts (serializer (- 1)) \<noteq> FormatAsFlatArrays"
    "s_ts (serializer (- 1)) \<noteq> FormatAsSelfDescribingArrays"
    by (simp_all add: example_defs)
  have v: "s_ts (serializer (- 1)) = - 1"
    by (simp add: example_defs)
  from m unknown_mode_is_an_error [OF m] v show ?thesis
    by simp
qed

subsection \<open>Booleans\<close>

lemma Int64_in_range:
  assumes "- (2 ^ 63) \<le> x" and "x < 2 ^ 63"
  shows "Int64 x = x"
proof -
  have "(if x < 0 then - (word_of_int \<bar>x\<bar> :: 64 word) else word_of_int \<bar>x\<bar>) = word_of_int x"
    by simp
  moreover have "sint (word_of_int x :: 64 word) = x"
    using assms by (simp add: signed_take_bit_int_eq_self sint_sbintrunc')
  ultimately show ?thesis
    by (simp add: Int64_def Let_def)
qed

text \<open>
  C4. A node of kind \<open>Bool\<close> whose integer is \<open>2 ^ 64 + 1\<close> is encoded as \<open>true\<close>:
  the comparison with 1 is made on \<open>Int64()\<close>, which keeps the low 64 bits only.
\<close>

theorem bool_of_large_integer_is_true:
  "serializeElementaryType s b
     (leaf ElementaryTypeBool ''flag'' ''bool'' (VBigInt 18446744073709551617)) =
   Return (JBool True) None"
  by (simp add: serializeElementaryType_def leaf_def elementary_def Int64_def)

lemma bool_in_int64_range:
  assumes "Component cv = Some c" and "ElementaryType c = ElementaryTypeBool"
    and "Value cv = VBigInt i" and "- (2 ^ 63) \<le> i" and "i < 2 ^ 63"
  shows "serializeElementaryType s b cv = Return (JBool (i = 1)) None"
  using assms by (simp add: serializeElementaryType_def Int64_in_range)

subsection \<open>The integer strategy with the safe range\<close>

lemma bitlen_le: "a < 2 ^ k \<Longrightarrow> bitlen a \<le> k"
proof (induction k arbitrary: a)
  case 0
  then show ?case by (simp add: bitlen.simps)
next
  case (Suc k)
  show ?case
  proof (cases "a \<le> 0")
    case True
    then show ?thesis by (simp add: bitlen.simps)
  next
    case False
    from Suc.prems have "a div 2 < 2 ^ k" by simp
    then have "bitlen (a div 2) \<le> k" by (rule Suc.IH)
    with False show ?thesis by (subst bitlen.simps) simp
  qed
qed

lemma float64_of_int64_exact:
  assumes "\<bar>v\<bar> < 2 ^ 53"
  shows "float64_of_int64 v = of_int v"
proof -
  have "bitlen \<bar>v\<bar> - 53 = 0"
    using bitlen_le [OF assms] by simp
  then have "float64_of_int64 v = of_int (sgn v * \<bar>v\<bar>)"
    by (simp add: float64_of_int64_def Let_def del: of_int_mult)
  then show ?thesis
    by (simp only: sgn_mult_abs)
qed

lemma digit_val_digit_char: "d < 10 \<Longrightarrow> digit_val (digit_char d) = d"
proof -
  assume "d < 10"
  then have "d \<in> {0, 1, 2, 3, 4, 5, 6, 7, 8, 9}" by auto
  then show ?thesis
    by (auto simp: digit_val_def digit_char_def)
qed

lemma digit_char_not_minus: "d < 10 \<Longrightarrow> digit_char d \<noteq> CHR ''-''"
proof -
  assume "d < 10"
  then have "d \<in> {0, 1, 2, 3, 4, 5, 6, 7, 8, 9}" by auto
  then show ?thesis
    by (auto simp: digit_char_def)
qed

lemma decimal_nat_snoc: "decimal_nat (ds @ [c]) = decimal_nat ds * 10 + digit_val c"
  by (simp add: decimal_nat_def)

lemma decimal_nat_FormatUint10: "decimal_nat (FormatUint10 n) = n"
proof (induction n rule: FormatUint10.induct)
  case (1 n)
  show ?case
  proof (cases "n < 10")
    case True
    then show ?thesis
      by (subst FormatUint10.simps) (simp add: decimal_nat_def digit_val_digit_char)
  next
    case False
    with 1 have "decimal_nat (FormatUint10 (n div 10)) = n div 10" by simp
    with False show ?thesis
      by (subst FormatUint10.simps) (simp add: decimal_nat_snoc digit_val_digit_char)
  qed
qed

lemma FormatUint10_hd: "\<exists>d cs. d < 10 \<and> FormatUint10 n = digit_char d # cs"
proof (induction n rule: FormatUint10.induct)
  case (1 n)
  show ?case
  proof (cases "n < 10")
    case True
    then show ?thesis
      by (subst FormatUint10.simps) auto
  next
    case False
    with 1 obtain d cs where "d < 10" "FormatUint10 (n div 10) = digit_char d # cs" by auto
    with False show ?thesis
      by (subst FormatUint10.simps) auto
  qed
qed

lemma decimal_int_big_Int_String: "decimal_int (big_Int_String i) = i"
proof (cases "i < 0")
  case True
  then show ?thesis
    by (simp add: big_Int_String_def decimal_int_def decimal_nat_FormatUint10)
next
  case False
  obtain d cs where d: "d < 10" "FormatUint10 (nat i) = digit_char d # cs"
    using FormatUint10_hd by blast
  have "decimal_nat (digit_char d # cs) = nat i"
    using decimal_nat_FormatUint10 [of "nat i"] d by simp
  with False d show ?thesis
    by (simp add: big_Int_String_def decimal_int_def digit_char_not_minus)
qed

text \<open>
  C2. For every integer \<open>i\<close>, \<open>NumberIfFitsOrBase10StringIntSerializer\<close> returns
  the \<open>float64\<close> whose value is \<open>i\<close> when \<open>\<bar>i\<bar> \<le> 9007199254740991\<close>, and the
  string \<open>i.String()\<close> when \<open>\<bar>i\<bar> > 9007199254740991\<close>; read as a decimal numeral, that
  string denotes \<open>i\<close>.
\<close>

theorem safe_range_int_strategy:
  "(\<bar>i\<bar> \<le> 9007199254740991 \<longrightarrow>
      NumberIfFitsOrBase10StringIntSerializer i = JFloat64 (of_int i)) \<and>
   (\<bar>i\<bar> > 9007199254740991 \<longrightarrow>
      NumberIfFitsOrBase10StringIntSerializer i = JString (big_Int_String i) \<and>
      decimal_int (big_Int_String i) = i)"
proof (intro conjI impI)
  assume a: "\<bar>i\<bar> \<le> 9007199254740991"
  then have "Int64 i = i"
    by (intro Int64_in_range) simp_all
  moreover from a have "float64_of_int64 i = of_int i"
    by (intro float64_of_int64_exact) simp
  moreover from a have "\<not> 9007199254740991 < i" "\<not> i < - 9007199254740991"
    by linarith+
  ultimately show "NumberIfFitsOrBase10StringIntSerializer i = JFloat64 (of_int i)"
    by (simp add: NumberIfFitsOrBase10StringIntSerializer_def maxSafeJSONNumberInt_def
        minSafeJSONNumberInt_def)
next
  assume "\<bar>i\<bar> > 9007199254740991"
  then show "NumberIfFitsOrBase10StringIntSerializer i = JString (big_Int_String i)"
    by (auto simp: NumberIfFitsOrBase10StringIntSerializer_def maxSafeJSONNumberInt_def
        minSafeJSONNumberInt_def)
next
  show "decimal_int (big_Int_String i) = i"
    by (rule decimal_int_big_Int_String)
qed

theorem safe_range_int_strategy_witness:
  "NumberIfFitsOrBase10StringIntSerializer 9007199254740991 = JFloat64 9007199254740991 \<and>
   NumberIfFitsOrBase10StringIntSerializer (- 9007199254740991) = JFloat64 (- 9007199254740991) \<and>
   NumberIfFitsOrBase10StringIntSerializer 9007199254740992 = JString ''9007199254740992'' \<and>
   NumberIfFitsOrBase10StringIntSerializer (- 9007199254740992) = JString ''-9007199254740992'' \<and>
   decimal_int ''-9007199254740992'' = - 9007199254740992"
proof -
  have s1: "big_Int_String 9007199254740992 = ''9007199254740992''"
    by (simp add: big_Int_String_def FormatUint10.simps digit_char_def)
  have s2: "big_Int_String (- 9007199254740992) = ''-9007199254740992''"
    by (simp add: big_Int_String_def FormatUint10.simps digit_char_def)
  show ?thesis
    using safe_range_int_strategy [of 9007199254740991]
      safe_range_int_strategy [of "- 9007199254740991"]
      safe_range_int_strategy [of 9007199254740992]
      safe_range_int_strategy [of "- 9007199254740992"] s1 s2
    by simp
qed

subsection \<open>Addresses\<close>

lemma length_be_bytes: "length (be_bytes n a) = n"
  by (induction n arbitrary: a) simp_all

lemma be_value_snoc: "be_value (xs @ [x]) = be_value xs * 256 + uint x"
  by (simp add: be_value_def)

lemma be_value_be_bytes: "be_value (be_bytes n a) = a mod 256 ^ n"
proof (induction n arbitrary: a)
  case 0
  show ?case by (simp add: be_value_def)
next
  case (Suc n)
  have "uint (word_of_int a :: byte) = a mod 256"
    by (simp add: uint_word_of_int)
  moreover have "a mod (256 * 256 ^ n) = 256 * (a div 256 mod 256 ^ n) + a mod 256"
    by (rule zmod_zmult2_eq) simp
  ultimately show ?case
    by (simp add: be_value_snoc Suc.IH)
qed

lemma FillBytes_fits:
  assumes "\<bar>x\<bar> < 256 ^ n"
  shows "\<exists>buf. FillBytes x n = Some buf \<and> length buf = n \<and> be_value buf = \<bar>x\<bar>"
  using assms by (simp add: FillBytes_def length_be_bytes be_value_be_bytes)

text \<open>
  C5, as amended. For an elementary node of kind \<open>Address\<close> whose decoded integer has
  a magnitude below \<open>2 ^ 160\<close>, the encoder builds the 20-byte array that holds the
  magnitude in big-endian order, zero-extended on the left, and returns the address
  strategy applied to it or, when no address strategy is set, the byte strategy applied
  to the same 20 bytes.
\<close>

theorem address_within_20_bytes:
  assumes "Component cv = Some c" and "ElementaryType c = ElementaryTypeAddress"
    and "Value cv = VBigInt i" and "\<bar>i\<bar> < 2 ^ 160"
  shows "\<exists>addr. length addr = 20 \<and> be_value addr = \<bar>i\<bar> \<and>
           serializeElementaryType s b cv =
             Return (case s_ad s of None \<Rightarrow> s_bs s addr | Some ad \<Rightarrow> ad addr) None"
proof -
  from assms(4) have "\<bar>i\<bar> < 256 ^ 20" by simp
  then obtain addr where "FillBytes i 20 = Some addr" "length addr = 20" "be_value addr = \<bar>i\<bar>"
    using FillBytes_fits by blast
  with assms(1-3) show ?thesis
    by (auto simp: serializeElementaryType_def split: option.splits)
qed

text \<open>
  An \<open>Address\<close> node holding \<open>2 ^ 160\<close> gives no encoded result: \<open>FillBytes\<close>
  panics on a magnitude that does not fit into 20 bytes.
\<close>

theorem address_too_large_panics:
  "serializeElementaryType (serializer 0) []
     (leaf ElementaryTypeAddress ''to'' ''address''
        (VBigInt 1461501637330902918203684832716283019655932542976)) =
   Panicked FillBytesBufferTooSmall"
  by (simp add: serializeElementaryType_def leaf_def elementary_def FillBytes_def)

theorem address_within_20_bytes_witness:
  "serializeElementaryType (serializer 0) []
     (leaf ElementaryTypeAddress ''to'' ''address'' (VBigInt 258)) =
   Return (JString ''0000000000000000000000000000000000000102'') None \<and>
   serializeElementaryType ((serializer 0) \<lparr> s_ad := Some HexByteSerializer0xPrefix \<rparr>) []
     (leaf ElementaryTypeAddress ''to'' ''address'' (VBigInt 258)) =
   Return (JString ''0x0000000000000000000000000000000000000102'') None"
proof -
  have b: "FillBytes 258 20 = Some [0,0,0,0,0,0,0,0,0,0,0,0,0,0,0,0,0,0,1,2]"
    by code_simp
  have h: "hex_EncodeToString [0,0,0,0,0,0,0,0,0,0,0,0,0,0,0,0,0,0,1,2] =
    ''0000000000000000000000000000000000000102''"
    by code_simp
  let ?cv = "leaf ElementaryTypeAddress ''to'' ''address'' (VBigInt 258)"
  have c: "Component ?cv = Some (elementary ElementaryTypeAddress ''to'' ''address'')"
    "ElementaryType (elementary ElementaryTypeAddress ''to'' ''address'') = ElementaryTypeAddress"
    "Value ?cv = VBigInt 258" "\<bar>258 :: int\<bar> < 2 ^ 160"
    by (simp_all add: leaf_def elementary_def)
  from address_within_20_bytes [OF c, of "serializer 0" "[]"]
    address_within_20_bytes [OF c, of "(serializer 0) \<lparr> s_ad := Some HexByteSerializer0xPrefix \<rparr>" "[]"]
  show ?thesis
    by (simp add: serializeElementaryType_def leaf_def elementary_def b h serializer_def
        NewSerializer_def HexByteSerializer_def HexByteSerializer0xPrefix_def)
qed


subsection \<open>Values of the wrong dynamic type\<close>

lemma serializeElementaryType_mismatch:
  assumes "Component cv = Some c" and "\<not> value_has_shape (ElementaryType c) (Value cv)"
  shows "serializeElementaryType s b cv = Panicked InterfaceConversion"
  using assms
  by (cases "ElementaryType c"; cases "Value cv") (simp_all add: serializeElementaryType_def)

lemma walkOutput_elementary:
  assumes "Component cv = Some c" and "ComponentType c = ElementaryComponent"
  shows "walkOutput s b cv = serializeElementaryType s b cv"
  using assms by (cases cv) simp

text \<open>
  C1, as amended. For an elementary node whose decoded value does not have the dynamic
  type that its kind's branch asserts, serialization returns no error at all: the
  unchecked type assertion panics, and the panic unwinds through the walker and both
  entry points.
\<close>

theorem shape_mismatch_panics:
  assumes "Component cv = Some c" and "ComponentType c = ElementaryComponent"
    and "\<not> value_has_shape (ElementaryType c) (Value cv)"
  shows "serializeElementaryType s b cv = Panicked InterfaceConversion \<and>
         walkOutput s b cv = Panicked InterfaceConversion \<and>
         SerializeInterfaceCtx s cv = Panicked InterfaceConversion \<and>
         SerializeJSONCtx json_Marshal json_MarshalIndent s cv = Panicked InterfaceConversion"
  using assms
  by (simp add: serializeElementaryType_mismatch walkOutput_elementary SerializeInterfaceCtx_def
      SerializeJSONCtx_def)

text \<open>A node of kind \<open>Int\<close> that holds a string: a panic, not an error.\<close>

theorem int_kind_with_string_value_panics:
  "walkOutput (serializer 0) [] (leaf ElementaryTypeInt ''n'' ''int256'' (VString ''12'')) =
   Panicked InterfaceConversion"
  by (simp add: leaf_def elementary_def serializeElementaryType_def)

theorem shape_mismatch_panics_witness:
  "\<not> value_has_shape ElementaryTypeBytes (VBigInt 7) \<and>
   walkOutput (serializer 2) ''[0]'' (leaf ElementaryTypeBytes ''data'' ''bytes'' (VBigInt 7)) =
     Panicked InterfaceConversion \<and>
   SerializeJSONCtx (\<lambda>v. (Some [], None)) (\<lambda>v. (Some [], None)) (serializer 2)
     (leaf ElementaryTypeBytes ''data'' ''bytes'' (VBigInt 7)) = Panicked InterfaceConversion"
proof -
  let ?cv = "leaf ElementaryTypeBytes ''data'' ''bytes'' (VBigInt 7)"
  let ?c = "elementary ElementaryTypeBytes ''data'' ''bytes''"
  have h: "Component ?cv = Some ?c" "ComponentType ?c = ElementaryComponent"
    "\<not> value_has_shape (ElementaryType ?c) (Value ?cv)"
    by (simp_all add: leaf_def elementary_def)
  from h(3) shape_mismatch_panics [OF h] show ?thesis
    by (simp add: leaf_def elementary_def)
qed

subsection \<open>Errors of children\<close>

lemma serializeArray_loop_prefix:
  assumes "\<forall>j<length pre. \<exists>x. walkOutput s (index_crumb b (i + j)) (pre ! j) = Return x None"
  shows "\<exists>out'. serializeArray_loop s b (pre @ rest) i out =
                 serializeArray_loop s b rest (i + length pre) out'"
  using assms
proof (induction pre arbitrary: i out)
  case Nil
  show ?case by auto
next
  case (Cons p ps)
  from Cons.prems [rule_format, of 0]
  obtain x where x: "walkOutput s (index_crumb b i) p = Return x None"
    by auto
  have "\<forall>j<length ps. \<exists>x. walkOutput s (index_crumb b (Suc i + j)) (ps ! j) = Return x None"
  proof (intro allI impI)
    fix j assume "j < length ps"
    then have "Suc j < length (p # ps)" by simp
    from Cons.prems [rule_format, OF this]
    show "\<exists>x. walkOutput s (index_crumb b (Suc i + j)) (ps ! j) = Return x None" by simp
  qed
  from Cons.IH [OF this, of "out[i := x]"] x show ?case
    by (simp add: index_crumb_def)
qed

lemma flatArrays_loop_prefix:
  assumes "\<forall>j<length pre. \<exists>x. walkOutput s (index_crumb b (i + j)) (pre ! j) = Return x None"
  shows "\<exists>out'. flatArrays_loop s b (pre @ rest) i out =
                 flatArrays_loop s b rest (i + length pre) out'"
  using serializeArray_loop_prefix [OF assms]
  by (simp add: flatArrays_loop_eq_serializeArray_loop)

lemma objects_loop_prefix:
  assumes "\<forall>j<length pre. \<forall>c. Component (pre ! j) = Some c \<longrightarrow>
             (\<exists>x. walkOutput s (name_crumb b (resolved_name s (i + j) c)) (pre ! j) = Return x None)"
  shows "\<exists>out'. objects_loop s b (pre @ rest) i out =
                 objects_loop s b rest (i + length pre) out'"
  using assms
proof (induction pre arbitrary: i out)
  case Nil
  show ?case by auto
next
  case (Cons p ps)
  have tl: "\<forall>j<length ps. \<forall>c. Component (ps ! j) = Some c \<longrightarrow>
             (\<exists>x. walkOutput s (name_crumb b (resolved_name s (Suc i + j) c)) (ps ! j) = Return x None)"
  proof (intro allI impI)
    fix j c assume "j < length ps" and c: "Component (ps ! j) = Some c"
    then have "Suc j < length (p # ps)" and "Component ((p # ps) ! Suc j) = Some c" by simp_all
    from Cons.prems [rule_format, OF this]
    show "\<exists>x. walkOutput s (name_crumb b (resolved_name s (Suc i + j) c)) (ps ! j) = Return x None"
      by simp
  qed
  show ?case
  proof (cases "Component p")
    case None
    with Cons.IH [OF tl, of out] show ?thesis by simp
  next
    case (Some c)
    with Cons.prems [rule_format, of 0 c] obtain x
      where x: "walkOutput s (name_crumb b (resolved_name s i c)) p = Return x None"
      by auto
    from Cons.IH [OF tl, of "AList.update (resolved_name s i c) x out"] x Some show ?thesis
      by (simp add: name_crumb_def resolved_name_def Let_def)
  qed
qed

lemma selfDescribing_loop_Cons_Some:
  assumes "Component child = Some c"
  shows "selfDescribing_loop s b (child # rest) i out =
     (case walkOutput s (name_crumb b (resolved_name s i c)) child of
        Panicked p \<Rightarrow> Panicked p
      | Return v (Some err) \<Rightarrow> Return JNil (Some err)
      | Return v None \<Rightarrow>
          selfDescribing_loop s b rest (Suc i)
            (out[i := JObject [(''name'', JString (resolved_name s i c)),
                               (''type'', JString (TypeString c)), (''value'', v)]]))"
  using assms by (simp add: name_crumb_def resolved_name_def split: ret.splits option.splits)

lemma selfDescribing_loop_Cons_None:
  assumes "Component child = None"
  shows "selfDescribing_loop s b (child # rest) i out =
     Return JNil (Some (MsgBadABITypeComponentValue child))"
  using assms by (cases child) simp

lemma selfDescribing_loop_prefix:
  assumes "\<forall>j<length pre. \<exists>x. walkOutput s (tuple_crumb s b (i + j) (pre ! j)) (pre ! j) = Return x None"
    and "s_ts s = FormatAsSelfDescribingArrays"
  shows "\<exists>out'. selfDescribing_loop s b (pre @ rest) i out =
                 selfDescribing_loop s b rest (i + length pre) out'"
  using assms(1)
proof (induction pre arbitrary: i out)
  case Nil
  show ?case by auto
next
  case (Cons p ps)
  have tl: "\<forall>j<length ps. \<exists>x. walkOutput s (tuple_crumb s b (Suc i + j) (ps ! j)) (ps ! j) = Return x None"
  proof (intro allI impI)
    fix j assume "j < length ps"
    then have "Suc j < length (p # ps)" by simp
    from Cons.prems [rule_format, OF this]
    show "\<exists>x. walkOutput s (tuple_crumb s b (Suc i + j) (ps ! j)) (ps ! j) = Return x None"
      by simp
  qed
  from Cons.prems [rule_format, of 0]
  obtain x where x: "walkOutput s (tuple_crumb s b i p) p = Return x None"
    by auto
  show ?case
  proof (cases "Component p")
    case None
    with x show ?thesis by (cases p) simp
  next
    case (Some c)
    with x assms(2) have "walkOutput s (name_crumb b (resolved_name s i c)) p = Return x None"
      by (simp add: tuple_crumb_def FormatAsSelfDescribingArrays_def FormatAsFlatArrays_def)
    with Cons.IH [OF tl] Some show ?thesis
      by (simp add: selfDescribing_loop_Cons_Some del: selfDescribing_loop.simps)
  qed
qed


lemma walkOutput_None:
  "Component cv = None \<Longrightarrow> walkOutput s b cv = Return JNil (Some (MsgBadABITypeComponentValue cv))"
  by (cases cv) simp

lemma walkOutput_array:
  assumes "Component cv = Some c"
    and "ComponentType c = FixedArrayComponent \<or> ComponentType c = DynamicArrayComponent"
  shows "walkOutput s b cv = serializeArray s b cv"
  using assms by (cases cv) auto

lemma walkOutput_tuple:
  assumes "Component cv = Some c" and "ComponentType c = TupleComponent"
  shows "walkOutput s b cv = serializeTuple s b cv"
  using assms by (cases cv) auto

lemma serializeArray_aborts:
  assumes "Children cv = pre @ c # post"
    and "\<forall>j<length pre. \<exists>x. walkOutput s (index_crumb b j) (pre ! j) = Return x None"
    and "walkOutput s (index_crumb b (length pre)) c = Return v (Some e)"
  shows "serializeArray s b cv = Return JNil (Some e)"
proof -
  from assms(2)
  have "\<forall>j<length pre. \<exists>x. walkOutput s (index_crumb b (0 + j)) (pre ! j) = Return x None"
    by simp
  from serializeArray_loop_prefix [OF this, of "c # post" "replicate (length (Children cv)) JNil"]
  obtain out' where "serializeArray_loop s b (pre @ c # post) 0 (replicate (length (Children cv)) JNil) =
      serializeArray_loop s b (c # post) (length pre) out'"
    by auto
  with assms(1,3) show ?thesis
    by (cases cv) (simp add: index_crumb_def)
qed

lemma serializeTuple_aborts:
  assumes "known_mode (s_ts s)" and "Children cv = pre @ c # post"
    and "\<forall>j<length pre. tuple_visits s (pre ! j) \<longrightarrow>
           (\<exists>x. walkOutput s (tuple_crumb s b j (pre ! j)) (pre ! j) = Return x None)"
    and "tuple_visits s c"
    and "walkOutput s (tuple_crumb s b (length pre) c) c = Return v (Some e)"
  shows "serializeTuple s b cv = Return JNil (Some e)"
proof -
  let ?n = "replicate (length (Children cv)) JNil"
  consider (obj) "s_ts s = FormatAsObjects" | (flat) "s_ts s = FormatAsFlatArrays"
    | (self) "s_ts s = FormatAsSelfDescribingArrays"
    using assms(1) by (auto simp: known_mode_def)
  then show ?thesis
  proof cases
    case obj
    then have m: "s_ts s \<noteq> FormatAsFlatArrays"
      by (simp add: FormatAsObjects_def FormatAsFlatArrays_def)
    have "\<forall>j<length pre. \<forall>d. Component (pre ! j) = Some d \<longrightarrow>
           (\<exists>x. walkOutput s (name_crumb b (resolved_name s (0 + j) d)) (pre ! j) = Return x None)"
      using assms(3) m by (auto simp: tuple_visits_def tuple_crumb_def)
    from objects_loop_prefix [OF this, of "c # post" "[]"]
    obtain out' where p: "objects_loop s b (pre @ c # post) 0 [] =
        objects_loop s b (c # post) (length pre) out'"
      by auto
    from assms(4) obj obtain d where d: "Component c = Some d"
      by (auto simp: tuple_visits_def)
    with assms(5) m
    have "walkOutput s (name_crumb b (resolved_name s (length pre) d)) c = Return v (Some e)"
      by (simp add: tuple_crumb_def)
    with d have "objects_loop s b (c # post) (length pre) out' = Return JNil (Some e)"
      by (simp add: name_crumb_def resolved_name_def Let_def)
    with p assms(2) obj show ?thesis
      by (cases cv) simp
  next
    case flat
    have "\<forall>j<length pre. \<exists>x. walkOutput s (index_crumb b (0 + j)) (pre ! j) = Return x None"
      using assms(3) flat
      by (auto simp: tuple_visits_def tuple_crumb_def FormatAsObjects_def FormatAsFlatArrays_def)
    from flatArrays_loop_prefix [OF this, of "c # post" ?n]
    obtain out' where p: "flatArrays_loop s b (pre @ c # post) 0 ?n =
        flatArrays_loop s b (c # post) (length pre) out'"
      by auto
    from assms(5) flat
    have "walkOutput s (index_crumb b (length pre)) c = Return v (Some e)"
      by (simp add: tuple_crumb_def)
    then have "flatArrays_loop s b (c # post) (length pre) out' = Return JNil (Some e)"
      by (simp add: index_crumb_def)
    with p assms(2) flat show ?thesis
      by (cases cv) (simp add: FormatAsObjects_def FormatAsFlatArrays_def)
  next
    case self
    then have m: "s_ts s \<noteq> FormatAsFlatArrays" "s_ts s \<noteq> FormatAsObjects"
      by (simp_all add: FormatAsObjects_def FormatAsFlatArrays_def FormatAsSelfDescribingArrays_def)
    have "\<forall>j<length pre. \<exists>x. walkOutput s (tuple_crumb s b (0 + j) (pre ! j)) (pre ! j) = Return x None"
      using assms(3) m by (auto simp: tuple_visits_def)
    from selfDescribing_loop_prefix [OF this self, of "c # post" ?n]
    obtain out' where p: "selfDescribing_loop s b (pre @ c # post) 0 ?n =
        selfDescribing_loop s b (c # post) (length pre) out'"
      by auto
    have "selfDescribing_loop s b (c # post) (length pre) out' = Return JNil (Some e)"
    proof (cases "Component c")
      case None
      with assms(5) show ?thesis
        by (simp add: selfDescribing_loop_Cons_None walkOutput_None del: selfDescribing_loop.simps)
    next
      case (Some d)
      with assms(5) m
      have "walkOutput s (name_crumb b (resolved_name s (length pre) d)) c = Return v (Some e)"
        by (simp add: tuple_crumb_def)
      with Some show ?thesis
        by (simp add: selfDescribing_loop_Cons_Some del: selfDescribing_loop.simps)
    qed
    with p assms(2) self m show ?thesis
      by (cases cv) simp
  qed
qed

lemma serializeArray_loop_error_nil:
  "serializeArray_loop s b cs i out = Return v (Some e) \<Longrightarrow> v = JNil"
  by (induction cs arbitrary: i out) (auto split: ret.splits option.splits)

lemma objects_loop_error_nil:
  "objects_loop s b cs i out = Return v (Some e) \<Longrightarrow> v = JNil"
  by (induction cs arbitrary: i out) (auto simp: Let_def split: ret.splits option.splits)

lemma selfDescribing_loop_error_nil:
  "selfDescribing_loop s b cs i out = Return v (Some e) \<Longrightarrow> v = JNil"
  by (induction cs arbitrary: i out) (auto simp: Let_def split: ret.splits option.splits)

lemma serializeArray_error_nil:
  "serializeArray s b cv = Return v (Some e) \<Longrightarrow> v = JNil"
  by (cases cv) (auto dest: serializeArray_loop_error_nil)

lemma serializeTuple_error_nil:
  "serializeTuple s b cv = Return v (Some e) \<Longrightarrow> v = JNil"
  by (cases cv)
     (auto simp: flatArrays_loop_eq_serializeArray_loop split: if_splits
        dest: serializeArray_loop_error_nil objects_loop_error_nil selfDescribing_loop_error_nil)

lemma serializeElementaryType_error_nil:
  "serializeElementaryType s b cv = Return v (Some e) \<Longrightarrow> v = JNil"
  by (auto simp: serializeElementaryType_def
      split: option.splits ElementaryTypeInfo.splits go_value.splits)

lemma walkOutput_error_nil:
  "walkOutput s b cv = Return v (Some e) \<Longrightarrow> v = JNil"
  by (cases cv)
     (auto simp del: serializeArray.simps serializeTuple.simps
        split: option.splits ComponentType.splits
        dest: serializeArray_error_nil serializeTuple_error_nil serializeElementaryType_error_nil)


lemma encodes_iff: "encodes s b cv \<longleftrightarrow> (\<exists>x. walkOutput s b cv = Return x None)"
  by (auto simp: encodes_def split: ret.splits option.splits)

lemma walkOutput_child_aborts:
  assumes d: "Component cv = Some d"
    and i: "i < length (Children cv)"
    and w: "child_walked s d (Children cv ! i)"
    and pre: "\<forall>j<i. child_walked s d (Children cv ! j) \<longrightarrow>
                encodes s (child_crumb s b d j (Children cv ! j)) (Children cv ! j)"
    and fail: "walkOutput s (child_crumb s b d i (Children cv ! i)) (Children cv ! i) =
                Return v (Some e)"
  shows "walkOutput s b cv = Return JNil (Some e)"
proof -
  let ?cs = "Children cv"
  have split: "?cs = take i ?cs @ ?cs ! i # drop (Suc i) ?cs"
    using i by (rule id_take_nth_drop)
  have len: "length (take i ?cs) = i"
    using i by simp
  have nth: "\<And>j. j < i \<Longrightarrow> take i ?cs ! j = ?cs ! j"
    by simp
  show ?thesis
  proof (cases "ComponentType d = TupleComponent")
    case True
    with w have m: "known_mode (s_ts s)" and vis: "tuple_visits s (?cs ! i)"
      by (simp_all add: child_walked_def)
    have p: "\<forall>j<length (take i ?cs). tuple_visits s (take i ?cs ! j) \<longrightarrow>
        (\<exists>x. walkOutput s (tuple_crumb s b j (take i ?cs ! j)) (take i ?cs ! j) = Return x None)"
      using pre True m
      by (auto simp: len child_walked_def child_crumb_def encodes_iff)
    have f: "walkOutput s (tuple_crumb s b (length (take i ?cs)) (?cs ! i)) (?cs ! i) =
        Return v (Some e)"
      unfolding len using fail True by (simp add: child_crumb_def)
    have "serializeTuple s b cv = Return JNil (Some e)"
      by (rule serializeTuple_aborts [OF m split p vis f])
    with d True show ?thesis
      by (simp add: walkOutput_tuple)
  next
    case False
    with w have a: "ComponentType d = FixedArrayComponent \<or> ComponentType d = DynamicArrayComponent"
      by (simp add: child_walked_def)
    have p: "\<forall>j<length (take i ?cs). \<exists>x. walkOutput s (index_crumb b j) (take i ?cs ! j) = Return x None"
      using pre False a
      by (auto simp: len child_walked_def child_crumb_def encodes_iff)
    have f: "walkOutput s (index_crumb b (length (take i ?cs))) (?cs ! i) = Return v (Some e)"
      unfolding len using fail False by (simp add: child_crumb_def)
    have "serializeArray s b cv = Return JNil (Some e)"
      by (rule serializeArray_aborts [OF split p f])
    with d a show ?thesis
      by (simp add: walkOutput_array)
  qed
qed

lemma walk_reaches_aborts:
  assumes "walk_reaches s b cv path = Some (b', cv')"
    and "walkOutput s b' cv' = Return v (Some e)"
  shows "walkOutput s b cv = Return JNil (Some e)"
  using assms
proof (induction path arbitrary: b cv)
  case Nil
  then have "walkOutput s b cv = Return v (Some e)" by simp
  moreover from this have "v = JNil" by (rule walkOutput_error_nil)
  ultimately show ?case by simp
next
  case (Cons i path)
  from Cons.prems(1) obtain d where d: "Component cv = Some d"
    by (auto split: option.splits)
  with Cons.prems(1)
  have i: "i < length (Children cv)" and w: "child_walked s d (Children cv ! i)"
    and pre: "list_all (\<lambda>j. child_walked s d (Children cv ! j) \<longrightarrow>
                   encodes s (child_crumb s b d j (Children cv ! j)) (Children cv ! j)) [0..<i]"
    and r: "walk_reaches s (child_crumb s b d i (Children cv ! i)) (Children cv ! i) path =
              Some (b', cv')"
    by (auto split: if_splits)
  have f: "walkOutput s (child_crumb s b d i (Children cv ! i)) (Children cv ! i) =
      Return JNil (Some e)"
    by (rule Cons.IH [OF r Cons.prems(2)])
  from pre have p: "\<forall>j<i. child_walked s d (Children cv ! j) \<longrightarrow>
                encodes s (child_crumb s b d j (Children cv ! j)) (Children cv ! j)"
    by (simp add: list_all_iff)
  show ?case
    by (rule walkOutput_child_aborts [OF d i w p f])
qed

text \<open>
  C7. No value comes back with an error: the walker, the array encoder and the tuple
  encoder return \<open>nil\<close> beside it, and the entry points return \<open>nil\<close> (for
  \<open>SerializeJSONCtx\<close>, \<open>nil\<close> bytes) with the very error of the walk. In the array
  encoder and in the tuple encoder of every known mode, when the children visited before
  some child are encoded and that child fails, the encoder returns \<open>nil\<close> and that
  child's error as it is, whatever the children after it are. The walker hands an array
  node to the array encoder and a tuple node to the tuple encoder and returns what they
  return, so the walk of such a node fails with that child's error too. Hence, at any
  depth: when the walk reaches a descendant along a list of child indices and the walk of
  that descendant fails, the walk of the node fails with the same error, and from the
  root both entry points return it.
\<close>

theorem first_child_error_aborts:
  "(walkOutput s b cv = Return v (Some e) \<longrightarrow> v = JNil) \<and>
   (serializeArray s b cv = Return v (Some e) \<longrightarrow> v = JNil) \<and>
   (serializeTuple s b cv = Return v (Some e) \<longrightarrow> v = JNil) \<and>
   (walkOutput s [] cv = Return v (Some e) \<longrightarrow>
      SerializeInterfaceCtx s cv = Return JNil (Some e) \<and>
      SerializeJSONCtx json_Marshal json_MarshalIndent s cv = Return None (Some e)) \<and>
   (Children cv = pre @ c # post \<and>
    (\<forall>j<length pre. \<exists>x. walkOutput s (index_crumb b j) (pre ! j) = Return x None) \<and>
    walkOutput s (index_crumb b (length pre)) c = Return v (Some e) \<longrightarrow>
      serializeArray s b cv = Return JNil (Some e)) \<and>
   (known_mode (s_ts s) \<and> Children cv = pre @ c # post \<and>
    (\<forall>j<length pre. tuple_visits s (pre ! j) \<longrightarrow>
        (\<exists>x. walkOutput s (tuple_crumb s b j (pre ! j)) (pre ! j) = Return x None)) \<and>
    tuple_visits s c \<and>
    walkOutput s (tuple_crumb s b (length pre) c) c = Return v (Some e) \<longrightarrow>
      serializeTuple s b cv = Return JNil (Some e)) \<and>
   (Component cv = Some d \<and>
    (ComponentType d = FixedArrayComponent \<or> ComponentType d = DynamicArrayComponent) \<longrightarrow>
      walkOutput s b cv = serializeArray s b cv) \<and>
   (Component cv = Some d \<and> ComponentType d = TupleComponent \<longrightarrow>
      walkOutput s b cv = serializeTuple s b cv) \<and>
   (Component cv = Some d \<and>
    (ComponentType d = FixedArrayComponent \<or> ComponentType d = DynamicArrayComponent) \<and>
    Children cv = pre @ c # post \<and>
    (\<forall>j<length pre. \<exists>x. walkOutput s (index_crumb b j) (pre ! j) = Return x None) \<and>
    walkOutput s (index_crumb b (length pre)) c = Return v (Some e) \<longrightarrow>
      walkOutput s b cv = Return JNil (Some e)) \<and>
   (Component cv = Some d \<and> ComponentType d = TupleComponent \<and>
    known_mode (s_ts s) \<and> Children cv = pre @ c # post \<and>
    (\<forall>j<length pre. tuple_visits s (pre ! j) \<longrightarrow>
        (\<exists>x. walkOutput s (tuple_crumb s b j (pre ! j)) (pre ! j) = Return x None)) \<and>
    tuple_visits s c \<and>
    walkOutput s (tuple_crumb s b (length pre) c) c = Return v (Some e) \<longrightarrow>
      walkOutput s b cv = Return JNil (Some e)) \<and>
   (walk_reaches s b cv path = Some (b', cv') \<and> walkOutput s b' cv' = Return v (Some e) \<longrightarrow>
      walkOutput s b cv = Return JNil (Some e)) \<and>
   (walk_reaches s [] cv path = Some (b', cv') \<and> walkOutput s b' cv' = Return v (Some e) \<longrightarrow>
      SerializeInterfaceCtx s cv = Return JNil (Some e) \<and>
      SerializeJSONCtx json_Marshal json_MarshalIndent s cv = Return None (Some e))"
proof (intro conjI impI)
  assume "walkOutput s b cv = Return v (Some e)"
  then show "v = JNil" by (rule walkOutput_error_nil)
next
  assume "serializeArray s b cv = Return v (Some e)"
  then show "v = JNil" by (rule serializeArray_error_nil)
next
  assume "serializeTuple s b cv = Return v (Some e)"
  then show "v = JNil" by (rule serializeTuple_error_nil)
next
  assume w: "walkOutput s [] cv = Return v (Some e)"
  then have "v = JNil" by (rule walkOutput_error_nil)
  with w show "SerializeInterfaceCtx s cv = Return JNil (Some e)"
    by (simp add: SerializeInterfaceCtx_def)
  from w show "SerializeJSONCtx json_Marshal json_MarshalIndent s cv = Return None (Some e)"
    by (simp add: SerializeJSONCtx_def)
next
  assume "Children cv = pre @ c # post \<and>
    (\<forall>j<length pre. \<exists>x. walkOutput s (index_crumb b j) (pre ! j) = Return x None) \<and>
    walkOutput s (index_crumb b (length pre)) c = Return v (Some e)"
  then show "serializeArray s b cv = Return JNil (Some e)"
    by (blast intro: serializeArray_aborts)
next
  assume "known_mode (s_ts s) \<and> Children cv = pre @ c # post \<and>
    (\<forall>j<length pre. tuple_visits s (pre ! j) \<longrightarrow>
        (\<exists>x. walkOutput s (tuple_crumb s b j (pre ! j)) (pre ! j) = Return x None)) \<and>
    tuple_visits s c \<and>
    walkOutput s (tuple_crumb s b (length pre) c) c = Return v (Some e)"
  then show "serializeTuple s b cv = Return JNil (Some e)"
    by (blast intro: serializeTuple_aborts)
next
  assume "Component cv = Some d \<and>
    (ComponentType d = FixedArrayComponent \<or> ComponentType d = DynamicArrayComponent)"
  then show "walkOutput s b cv = serializeArray s b cv"
    by (blast intro: walkOutput_array)
next
  assume "Component cv = Some d \<and> ComponentType d = TupleComponent"
  then show "walkOutput s b cv = serializeTuple s b cv"
    by (blast intro: walkOutput_tuple)
next
  assume a: "Component cv = Some d \<and>
    (ComponentType d = FixedArrayComponent \<or> ComponentType d = DynamicArrayComponent) \<and>
    Children cv = pre @ c # post \<and>
    (\<forall>j<length pre. \<exists>x. walkOutput s (index_crumb b j) (pre ! j) = Return x None) \<and>
    walkOutput s (index_crumb b (length pre)) c = Return v (Some e)"
  then have "serializeArray s b cv = Return JNil (Some e)"
    by (blast intro: serializeArray_aborts)
  moreover from a have "walkOutput s b cv = serializeArray s b cv"
    by (blast intro: walkOutput_array)
  ultimately show "walkOutput s b cv = Return JNil (Some e)"
    by simp
next
  assume a: "Component cv = Some d \<and> ComponentType d = TupleComponent \<and>
    known_mode (s_ts s) \<and> Children cv = pre @ c # post \<and>
    (\<forall>j<length pre. tuple_visits s (pre ! j) \<longrightarrow>
        (\<exists>x. walkOutput s (tuple_crumb s b j (pre ! j)) (pre ! j) = Return x None)) \<and>
    tuple_visits s c \<and>
    walkOutput s (tuple_crumb s b (length pre) c) c = Return v (Some e)"
  then have "serializeTuple s b cv = Return JNil (Some e)"
    by (blast intro: serializeTuple_aborts)
  moreover from a have "walkOutput s b cv = serializeTuple s b cv"
    by (blast intro: walkOutput_tuple)
  ultimately show "walkOutput s b cv = Return JNil (Some e)"
    by simp
next
  assume "walk_reaches s b cv path = Some (b', cv') \<and> walkOutput s b' cv' = Return v (Some e)"
  then show "walkOutput s b cv = Return JNil (Some e)"
    by (blast intro: walk_reaches_aborts)
next
  assume "walk_reaches s [] cv path = Some (b', cv') \<and> walkOutput s b' cv' = Return v (Some e)"
  then have w: "walkOutput s [] cv = Return JNil (Some e)"
    by (blast intro: walk_reaches_aborts)
  then show "SerializeInterfaceCtx s cv = Return JNil (Some e)"
    by (simp add: SerializeInterfaceCtx_def)
  from w show "SerializeJSONCtx json_Marshal json_MarshalIndent s cv = Return None (Some e)"
    by (simp add: SerializeJSONCtx_def)
qed

theorem first_child_error_aborts_witness:
  "serializeArray (serializer 0) ''[xs]'' example_array =
     Return JNil (Some (MsgUnknownABIElementaryType (ElementaryTypeOther ''map'') ''[xs][1]'')) \<and>
   walkOutput (serializer 0) ''[xs]'' example_array =
     Return JNil (Some (MsgUnknownABIElementaryType (ElementaryTypeOther ''map'') ''[xs][1]'')) \<and>
   serializeTuple (serializer 0) [] example_tuple =
     Return JNil (Some (MsgUnknownABIElementaryType (ElementaryTypeOther ''map'') ''[xs][1]'')) \<and>
   walkOutput (serializer 0) [] example_tuple =
     Return JNil (Some (MsgUnknownABIElementaryType (ElementaryTypeOther ''map'') ''[xs][1]'')) \<and>
   walk_reaches (serializer 0) [] example_tuple [2, 1] =
     Some (''[xs][1]'', leaf (ElementaryTypeOther ''map'') [] ''map'' VNil) \<and>
   SerializeInterfaceCtx (serializer 0) example_tuple =
     Return JNil (Some (MsgUnknownABIElementaryType (ElementaryTypeOther ''map'') ''[xs][1]'')) \<and>
   SerializeJSONCtx (\<lambda>v. (Some [], None)) (\<lambda>v. (Some [], None)) (serializer 0) example_tuple =
     Return None (Some (MsgUnknownABIElementaryType (ElementaryTypeOther ''map'') ''[xs][1]''))"
proof -
  let ?s = "serializer 0"
  let ?e = "MsgUnknownABIElementaryType (ElementaryTypeOther ''map'') ''[xs][1]''"
  let ?m = "\<lambda>v::json. (Some ([]::byte list), None::error option)"
  let ?ok = "leaf ElementaryTypeString [] ''string'' (VString ''ok'')"
  let ?bad = "leaf (ElementaryTypeOther ''map'') [] ''map'' VNil"
  let ?boom = "leaf ElementaryTypeInt [] ''int256'' (VString ''boom'')"
  let ?a = "leaf ElementaryTypeUint ''a'' ''uint256'' (VBigInt 5)"
  let ?z = "leaf ElementaryTypeInt ''z'' ''int256'' (VString ''bad'')"
  let ?da = "composite DynamicArrayComponent ''xs'' ''string[]''"
  let ?dt = "composite TupleComponent [] ''(uint256,string[],int256)''"
  have d1: "FormatUint10 (Suc 0) = ''1''"
    by (simp add: FormatUint10.simps digit_char_def)
  have a0: "Component example_array = Some ?da"
    "ComponentType ?da = FixedArrayComponent \<or> ComponentType ?da = DynamicArrayComponent"
    by (simp_all add: example_array_def node_def composite_def)
  have a1: "Children example_array = [?ok] @ ?bad # [?boom]"
    by (simp add: example_array_def node_def)
  have a2: "\<forall>j<length [?ok]. \<exists>x. walkOutput ?s (index_crumb ''[xs]'' j) ([?ok] ! j) = Return x None"
    by (simp add: leaf_def elementary_def serializeElementaryType_def)
  have a3: "walkOutput ?s (index_crumb ''[xs]'' (length [?ok])) ?bad = Return JNil (Some ?e)"
    by (simp add: leaf_def elementary_def serializeElementaryType_def index_crumb_def d1)
  note arr_inst = first_child_error_aborts [where s = ?s and b = "''[xs]''" and cv = example_array
      and v = JNil and e = ?e and pre = "[?ok]" and c = ?bad and post = "[?boom]" and d = ?da]
  from arr_inst [THEN conjunct2, THEN conjunct2, THEN conjunct2, THEN conjunct2, THEN conjunct1] a1 a2 a3
  have arr: "serializeArray ?s ''[xs]'' example_array = Return JNil (Some ?e)"
    by blast
  from arr_inst [THEN conjunct2, THEN conjunct2, THEN conjunct2, THEN conjunct2, THEN conjunct2, THEN conjunct2, THEN conjunct2, THEN conjunct2, THEN conjunct1] a0 a1 a2 a3
  have warr: "walkOutput ?s ''[xs]'' example_array = Return JNil (Some ?e)"
    by blast
  have t0: "known_mode (s_ts ?s)"
    by (simp add: known_mode_def example_defs)
  have t0': "Component example_tuple = Some ?dt" "ComponentType ?dt = TupleComponent"
    by (simp_all add: example_tuple_def node_def composite_def)
  have t1: "Children example_tuple = [?a, ComponentValue None VNil []] @ example_array # [?z]"
    by (simp add: example_tuple_def node_def)
  have t2: "\<forall>j<length [?a, ComponentValue None VNil []].
      tuple_visits ?s ([?a, ComponentValue None VNil []] ! j) \<longrightarrow>
      (\<exists>x. walkOutput ?s (tuple_crumb ?s [] j ([?a, ComponentValue None VNil []] ! j))
              ([?a, ComponentValue None VNil []] ! j) = Return x None)"
    by (auto simp: less_Suc_eq tuple_visits_def example_defs serializeElementaryType_def)
  have t3: "tuple_visits ?s example_array"
    by (simp add: tuple_visits_def example_array_def node_def)
  have t4: "walkOutput ?s (tuple_crumb ?s [] (length [?a, ComponentValue None VNil []]) example_array)
      example_array = Return JNil (Some ?e)"
    using warr
    by (simp add: tuple_crumb_def name_crumb_def resolved_name_def example_array_def
        example_defs del: serializeArray.simps)
  note tup_inst = first_child_error_aborts [where s = ?s and b = "[]" and cv = example_tuple
      and v = JNil and e = ?e and pre = "[?a, ComponentValue None VNil []]"
      and c = example_array and post = "[?z]" and d = ?dt
      and json_Marshal = ?m and json_MarshalIndent = ?m]
  from tup_inst [THEN conjunct2, THEN conjunct2, THEN conjunct2, THEN conjunct2, THEN conjunct2, THEN conjunct1] t0 t1 t2 t3 t4
  have tup: "serializeTuple ?s [] example_tuple = Return JNil (Some ?e)"
    by blast
  from tup_inst [THEN conjunct2, THEN conjunct2, THEN conjunct2, THEN conjunct2, THEN conjunct2, THEN conjunct2, THEN conjunct2, THEN conjunct2, THEN conjunct2, THEN conjunct1] t0 t0' t1 t2 t3 t4
  have w: "walkOutput ?s [] example_tuple = Return JNil (Some ?e)"
    by blast
  have r: "walk_reaches ?s [] example_tuple [2, 1] = Some (''[xs][1]'', ?bad)"
    by code_simp
  have f: "walkOutput ?s ''[xs][1]'' ?bad = Return JNil (Some ?e)"
    by (simp add: leaf_def elementary_def serializeElementaryType_def)
  from first_child_error_aborts [where s = ?s and cv = example_tuple and path = "[2, 1]"
      and b' = "''[xs][1]''" and cv' = ?bad and v = JNil and e = ?e
      and json_Marshal = ?m and json_MarshalIndent = ?m, THEN conjunct2, THEN conjunct2, THEN conjunct2, THEN conjunct2, THEN conjunct2, THEN conjunct2, THEN conjunct2, THEN conjunct2, THEN conjunct2, THEN conjunct2, THEN conjunct2] r f
  have top: "SerializeInterfaceCtx ?s example_tuple = Return JNil (Some ?e)"
    "SerializeJSONCtx ?m ?m ?s example_tuple = Return None (Some ?e)"
    by blast+
  from arr warr tup w r top show ?thesis
    by simp
qed

subsection \<open>Breadcrumbs\<close>

lemma FormatUint10_0: "FormatUint10 0 = ''0''"
  by (simp add: FormatUint10.simps digit_char_def)

text \<open>
  C9, as amended. In an array whose element 0 is a tuple walked in one of the two named
  modes, when the fields visited before some field are encoded and that field is an
  elementary node of an unknown kind, the walk of the array fails with
  \<open>MsgUnknownABIElementaryType\<close> carrying the breadcrumb \<open>[0][name]\<close> after the
  breadcrumb of the array: the array encoder adds the index, the tuple encoder the
  resolved name of the field.
\<close>

theorem breadcrumb_of_unknown_kind:
  assumes "Component a = Some ca"
    and "ComponentType ca = FixedArrayComponent \<or> ComponentType ca = DynamicArrayComponent"
    and "Children a = t # rest"
    and "Component t = Some ct" and "ComponentType ct = TupleComponent"
    and "s_ts s = FormatAsObjects \<or> s_ts s = FormatAsSelfDescribingArrays"
    and "Children t = pre @ f # post"
    and "\<forall>j<length pre. tuple_visits s (pre ! j) \<longrightarrow>
           (\<exists>x. walkOutput s (tuple_crumb s (b @ ''[0]'') j (pre ! j)) (pre ! j) = Return x None)"
    and "Component f = Some cf" and "ComponentType cf = ElementaryComponent"
    and "ElementaryType cf = ElementaryTypeOther k"
  shows "walkOutput s b a =
           Return JNil (Some (MsgUnknownABIElementaryType (ElementaryTypeOther k)
             (b @ ''[0]'' @ ''['' @ resolved_name s (length pre) cf @ '']'')))"
proof -
  let ?e = "MsgUnknownABIElementaryType (ElementaryTypeOther k)
             (b @ ''[0]'' @ ''['' @ resolved_name s (length pre) cf @ '']'')"
  have m: "known_mode (s_ts s)" "s_ts s \<noteq> FormatAsFlatArrays"
    using assms(6)
    by (auto simp: known_mode_def FormatAsObjects_def FormatAsFlatArrays_def
        FormatAsSelfDescribingArrays_def)
  have crumb: "tuple_crumb s (b @ ''[0]'') (length pre) f =
      b @ ''[0]'' @ ''['' @ resolved_name s (length pre) cf @ '']''"
    using m(2) assms(9) by (simp add: tuple_crumb_def name_crumb_def)
  have "walkOutput s (tuple_crumb s (b @ ''[0]'') (length pre) f) f = Return JNil (Some ?e)"
    using assms(9-11)
    by (simp add: walkOutput_elementary serializeElementaryType_def crumb)
  moreover have "tuple_visits s f"
    using assms(9) by (simp add: tuple_visits_def)
  ultimately have "serializeTuple s (b @ ''[0]'') t = Return JNil (Some ?e)"
    using m(1) assms(7,8) by (intro serializeTuple_aborts) auto
  then have "walkOutput s (index_crumb b (length ([] :: ComponentValue list))) t =
      Return JNil (Some ?e)"
    using assms(4,5) by (simp add: walkOutput_tuple index_crumb_def FormatUint10_0)
  then have "serializeArray s b a = Return JNil (Some ?e)"
    using assms(3) by (intro serializeArray_aborts [where pre = "[]" and post = rest]) auto
  then show ?thesis
    using assms(1,2) by (simp add: walkOutput_array)
qed

text \<open>
  A failure inside field \<open>fieldName\<close> of element 0 that is not an unknown elementary
  kind: the descriptor of the field has an unknown variant, and the error carries the
  descriptor and no breadcrumb.
\<close>

theorem bad_component_error_has_no_breadcrumb:
  "walkOutput (serializer 0) []
     (node DynamicArrayComponent [] ''t[]''
        [node TupleComponent [] ''t''
           [ComponentValue (Some (composite (OtherComponent 9) ''fieldName'' ''t'')) VNil []]]) =
   Return JNil (Some (MsgBadABITypeComponent (composite (OtherComponent 9) ''fieldName'' ''t''))) \<and>
   error_breadcrumb (MsgBadABITypeComponent (composite (OtherComponent 9) ''fieldName'' ''t'')) =
   None"
  by (simp add: example_defs)

theorem breadcrumb_of_unknown_kind_witness:
  "walkOutput (serializer 0) []
     (node DynamicArrayComponent [] ''(uint256,map)[]''
        [node TupleComponent [] ''(uint256,map)''
           [leaf ElementaryTypeUint ''amount'' ''uint256'' (VBigInt 5),
            leaf (ElementaryTypeOther ''map'') ''fieldName'' ''map'' VNil]]) =
   Return JNil (Some (MsgUnknownABIElementaryType (ElementaryTypeOther ''map'') ''[0][fieldName]'')) \<and>
   walkOutput (serializer 2) []
     (node DynamicArrayComponent [] ''(uint256,map)[]''
        [node TupleComponent [] ''(uint256,map)''
           [leaf ElementaryTypeUint ''amount'' ''uint256'' (VBigInt 5),
            leaf (ElementaryTypeOther ''map'') [] ''map'' VNil]]) =
   Return JNil (Some (MsgUnknownABIElementaryType (ElementaryTypeOther ''map'') ''[0][1]''))"
proof -
  let ?am = "leaf ElementaryTypeUint ''amount'' ''uint256'' (VBigInt 5)"
  let ?f = "leaf (ElementaryTypeOther ''map'') ''fieldName'' ''map'' VNil"
  let ?g = "leaf (ElementaryTypeOther ''map'') [] ''map'' VNil"
  let ?t = "node TupleComponent [] ''(uint256,map)'' [?am, ?f]"
  let ?u = "node TupleComponent [] ''(uint256,map)'' [?am, ?g]"
  let ?a = "node DynamicArrayComponent [] ''(uint256,map)[]'' [?t]"
  let ?a' = "node DynamicArrayComponent [] ''(uint256,map)[]'' [?u]"
  have 1: "Component ?a = Some (composite DynamicArrayComponent [] ''(uint256,map)[]'')"
    "Component ?a' = Some (composite DynamicArrayComponent [] ''(uint256,map)[]'')"
    "ComponentType (composite DynamicArrayComponent [] ''(uint256,map)[]'') = FixedArrayComponent \<or>
     ComponentType (composite DynamicArrayComponent [] ''(uint256,map)[]'') = DynamicArrayComponent"
    "Children ?a = ?t # []" "Children ?a' = ?u # []"
    "Component ?t = Some (composite TupleComponent [] ''(uint256,map)'')"
    "Component ?u = Some (composite TupleComponent [] ''(uint256,map)'')"
    "ComponentType (composite TupleComponent [] ''(uint256,map)'') = TupleComponent"
    "Children ?t = [?am] @ ?f # []" "Children ?u = [?am] @ ?g # []"
    by (simp_all add: node_def composite_def)
  have 2: "s_ts (serializer 0) = FormatAsObjects \<or> s_ts (serializer 0) = FormatAsSelfDescribingArrays"
    "s_ts (serializer 2) = FormatAsObjects \<or> s_ts (serializer 2) = FormatAsSelfDescribingArrays"
    by (simp_all add: example_defs)
  have 3: "\<forall>j<length [?am]. tuple_visits (serializer 0) ([?am] ! j) \<longrightarrow>
      (\<exists>x. walkOutput (serializer 0) (tuple_crumb (serializer 0) ([] @ ''[0]'') j ([?am] ! j))
              ([?am] ! j) = Return x None)"
    "\<forall>j<length [?am]. tuple_visits (serializer 2) ([?am] ! j) \<longrightarrow>
      (\<exists>x. walkOutput (serializer 2) (tuple_crumb (serializer 2) ([] @ ''[0]'') j ([?am] ! j))
              ([?am] ! j) = Return x None)"
    by (simp_all add: leaf_def elementary_def serializeElementaryType_def)
  have 4: "Component ?f = Some (elementary (ElementaryTypeOther ''map'') ''fieldName'' ''map'')"
    "ComponentType (elementary (ElementaryTypeOther ''map'') ''fieldName'' ''map'') = ElementaryComponent"
    "ElementaryType (elementary (ElementaryTypeOther ''map'') ''fieldName'' ''map'') =
       ElementaryTypeOther ''map''"
    "Component ?g = Some (elementary (ElementaryTypeOther ''map'') [] ''map'')"
    "ComponentType (elementary (ElementaryTypeOther ''map'') [] ''map'') = ElementaryComponent"
    "ElementaryType (elementary (ElementaryTypeOther ''map'') [] ''map'') =
       ElementaryTypeOther ''map''"
    by (simp_all add: leaf_def elementary_def)
  have n: "resolved_name (serializer 0) (length [?am])
             (elementary (ElementaryTypeOther ''map'') ''fieldName'' ''map'') = ''fieldName''"
    "resolved_name (serializer 2) (length [?am])
             (elementary (ElementaryTypeOther ''map'') [] ''map'') = ''1''"
    by (simp_all add: resolved_name_def example_defs FormatUint10.simps digit_char_def)
  from breadcrumb_of_unknown_kind [OF 1(1) 1(3) 1(4) 1(6) 1(8) 2(1) 1(9) 3(1) 4(1-3)]
    breadcrumb_of_unknown_kind [OF 1(2) 1(3) 1(5) 1(7) 1(8) 2(2) 1(10) 3(2) 4(4-6)] n
  show ?thesis
    by simp
qed

subsection \<open>Tuples as objects\<close>

lemma objects_loop_result:
  assumes "length vs = length cs"
    and "\<forall>j<length cs. \<forall>c. Component (cs ! j) = Some c \<longrightarrow>
           walkOutput s (name_crumb b (resolved_name s (i + j) c)) (cs ! j) = Return (vs ! j) None"
  shows "\<exists>out'. objects_loop s b cs i out = Return (JObject out') None \<and>
           (\<forall>k v. map_of out' k = Some v \<longleftrightarrow>
              (\<exists>j<length cs. field_named s (i + j) (cs ! j) k \<and> vs ! j = v \<and>
                 (\<forall>j'<length cs. j < j' \<longrightarrow> \<not> field_named s (i + j') (cs ! j') k)) \<or>
              ((\<forall>j<length cs. \<not> field_named s (i + j) (cs ! j) k) \<and> map_of out k = Some v))"
  using assms
proof (induction cs arbitrary: i out vs)
  case Nil
  show ?case by simp
next
  case (Cons c0 rest)
  from Cons.prems(1) obtain v0 vs' where vs: "vs = v0 # vs'" and len: "length vs' = length rest"
    by (cases vs) auto
  have ok: "\<forall>j<length rest. \<forall>c. Component (rest ! j) = Some c \<longrightarrow>
           walkOutput s (name_crumb b (resolved_name s (Suc i + j) c)) (rest ! j) =
             Return (vs' ! j) None"
    using Cons.prems(2) by (simp add: All_less_Suc2 vs)
  let ?out1 = "case Component c0 of None \<Rightarrow> out
               | Some d \<Rightarrow> AList.update (resolved_name s i d) v0 out"
  have step: "objects_loop s b (c0 # rest) i out = objects_loop s b rest (Suc i) ?out1"
  proof (cases "Component c0")
    case None
    then show ?thesis by simp
  next
    case (Some d)
    with Cons.prems(2) have "walkOutput s (name_crumb b (resolved_name s i d)) c0 = Return v0 None"
      by (simp add: All_less_Suc2 vs)
    with Some show ?thesis
      by (simp add: name_crumb_def resolved_name_def Let_def)
  qed
  have m1: "\<And>k v. map_of ?out1 k = Some v \<longleftrightarrow>
      (field_named s i c0 k \<and> v0 = v) \<or> (\<not> field_named s i c0 k \<and> map_of out k = Some v)"
    by (auto simp: field_named_def update_conv' split: option.splits)
  from Cons.IH [OF len ok, of ?out1] obtain out'
    where r: "objects_loop s b rest (Suc i) ?out1 = Return (JObject out') None"
      and c: "\<And>k v. map_of out' k = Some v \<longleftrightarrow>
              (\<exists>j<length rest. field_named s (Suc i + j) (rest ! j) k \<and> vs' ! j = v \<and>
                 (\<forall>j'<length rest. j < j' \<longrightarrow> \<not> field_named s (Suc i + j') (rest ! j') k)) \<or>
              ((\<forall>j<length rest. \<not> field_named s (Suc i + j) (rest ! j) k) \<and>
               map_of ?out1 k = Some v)"
    by blast
  have "\<And>k v. map_of out' k = Some v \<longleftrightarrow>
      (\<exists>j<length (c0 # rest). field_named s (i + j) ((c0 # rest) ! j) k \<and> vs ! j = v \<and>
         (\<forall>j'<length (c0 # rest). j < j' \<longrightarrow> \<not> field_named s (i + j') ((c0 # rest) ! j') k)) \<or>
      ((\<forall>j<length (c0 # rest). \<not> field_named s (i + j) ((c0 # rest) ! j) k) \<and>
       map_of out k = Some v)"
    unfolding c m1 by (simp add: All_less_Suc2 Ex_less_Suc2 vs) blast
  with step r show ?case
    by auto
qed


text \<open>
  C6. In the mode \<open>FormatAsObjects\<close>, when every child that has a descriptor is
  encoded without error under the breadcrumb of its resolved name (the declared name, or
  the generated one for its index when the declared name is empty), the tuple encoder
  returns an object and no error. A name is bound in that object exactly when some child
  with a descriptor resolves to it, and it is bound to the encoded value of the last such
  child: a child without a descriptor leaves no trace, and of two children that resolve to
  one name the later one wins.
\<close>

theorem objects_layout:
  assumes "s_ts s = FormatAsObjects" and "length vs = length (Children cv)"
    and "\<forall>j<length (Children cv). \<forall>c. Component (Children cv ! j) = Some c \<longrightarrow>
           walkOutput s (name_crumb b (resolved_name s j c)) (Children cv ! j) =
             Return (vs ! j) None"
  shows "\<exists>out. serializeTuple s b cv = Return (JObject out) None \<and>
           (\<forall>k v. map_of out k = Some v \<longleftrightarrow>
              (\<exists>j<length (Children cv). field_named s j (Children cv ! j) k \<and> vs ! j = v \<and>
                 (\<forall>j'<length (Children cv). j < j' \<longrightarrow>
                    \<not> field_named s j' (Children cv ! j') k)))"
proof -
  from assms(3)
  have "\<forall>j<length (Children cv). \<forall>c. Component (Children cv ! j) = Some c \<longrightarrow>
           walkOutput s (name_crumb b (resolved_name s (0 + j) c)) (Children cv ! j) =
             Return (vs ! j) None"
    by simp
  from objects_loop_result [OF assms(2) this, of "[]"] assms(1) show ?thesis
    by (cases cv) simp
qed

theorem objects_layout_witness:
  "serializeTuple (serializer 0) ''t''
     (node TupleComponent [] ''(uint8,uint8,uint8)''
        [leaf ElementaryTypeUint ''1'' ''uint8'' (VBigInt 10),
         leaf ElementaryTypeUint [] ''uint8'' (VBigInt 20),
         ComponentValue None (VBigInt 25) [],
         leaf ElementaryTypeUint ''a'' ''uint8'' (VBigInt 30)]) =
   Return (JObject [(''1'', JString ''20''), (''a'', JString ''30'')]) None \<and>
   map_of [(''1'', JString ''20''), (''a'', JString ''30'')] ''1'' = Some (JString ''20'') \<and>
   map_of [(''1'', JString ''20''), (''a'', JString ''30'')] ''2'' = None"
proof -
  let ?s = "serializer 0"
  let ?cs = "[leaf ElementaryTypeUint ''1'' ''uint8'' (VBigInt 10),
         leaf ElementaryTypeUint [] ''uint8'' (VBigInt 20),
         ComponentValue None (VBigInt 25) [],
         leaf ElementaryTypeUint ''a'' ''uint8'' (VBigInt 30)]"
  let ?cv = "node TupleComponent [] ''(uint8,uint8,uint8)'' ?cs"
  let ?vs = "[JString ''10'', JString ''20'', JNil, JString ''30'']"
  let ?L = "[(''1'', JString ''20''), (''a'', JString ''30'')]"
  have ch: "Children ?cv = ?cs"
    by (simp add: node_def)
  have h1: "s_ts ?s = FormatAsObjects" and h2: "length ?vs = length (Children ?cv)"
    by (simp_all add: example_defs)
  have h3: "\<forall>j<length (Children ?cv). \<forall>c. Component (Children ?cv ! j) = Some c \<longrightarrow>
           walkOutput ?s (name_crumb ''t'' (resolved_name ?s j c)) (Children ?cv ! j) =
             Return (?vs ! j) None"
    unfolding ch
    by (simp add: All_less_Suc2 example_defs serializeElementaryType_def big_Int_String_def
        FormatUint10.simps digit_char_def)
  from objects_layout [OF h1 h2 h3] obtain out
    where r: "serializeTuple ?s ''t'' ?cv = Return (JObject out) None"
      and c: "\<And>k v. map_of out k = Some v \<longleftrightarrow>
              (\<exists>j<length (Children ?cv). field_named ?s j (Children ?cv ! j) k \<and> ?vs ! j = v \<and>
                 (\<forall>j'<length (Children ?cv). j < j' \<longrightarrow>
                    \<not> field_named ?s j' (Children ?cv ! j') k))"
    by blast
  have fn: "field_named ?s 0 (?cs ! 0) ''1''" "field_named ?s 1 (?cs ! 1) ''1''"
    "\<not> field_named ?s 2 (?cs ! 2) ''1''" "\<not> field_named ?s 3 (?cs ! 3) ''1''"
    "\<And>j. j < 4 \<Longrightarrow> \<not> field_named ?s j (?cs ! j) ''2''"
    by (auto simp: field_named_def resolved_name_def example_defs FormatUint10.simps
        digit_char_def less_Suc_eq numeral_eq_Suc)
  have one: "map_of out ''1'' = Some (JString ''20'')"
    unfolding c ch using fn(1-4)
    by (intro exI [of _ 1]) (auto simp: less_Suc_eq numeral_eq_Suc)
  have two: "map_of out ''2'' = None"
  proof (cases "map_of out ''2''")
    case (Some v)
    then show ?thesis
      unfolding c ch using fn(5) by auto
  qed simp
  have ev: "serializeTuple ?s ''t'' ?cv = Return (JObject ?L) None"
    by (simp add: example_defs serializeElementaryType_def big_Int_String_def
        FormatUint10.simps digit_char_def)
  with r have "out = ?L" by simp
  with ev one two show ?thesis by simp
qed


subsection \<open>Tuples as self-describing arrays\<close>

lemma selfDescribing_loop_result:
  assumes "length ds = length cs" and "length vs = length cs" and "i + length cs \<le> length out"
    and "\<forall>j<length cs. Component (cs ! j) = Some (ds ! j) \<and>
           walkOutput s (name_crumb b (resolved_name s (i + j) (ds ! j))) (cs ! j) =
             Return (vs ! j) None"
  shows "selfDescribing_loop s b cs i out =
           Return (JArray (take i out @
                     map (\<lambda>j. selfDescribing_entry s (i + j) (ds ! j) (vs ! j)) [0..<length cs] @
                     drop (i + length cs) out)) None"
  using assms
proof (induction cs arbitrary: i out ds vs)
  case Nil
  show ?case by simp
next
  case (Cons c0 rest)
  from Cons.prems(1) obtain d0 ds' where ds: "ds = d0 # ds'" and lds: "length ds' = length rest"
    by (cases ds) auto
  from Cons.prems(2) obtain v0 vs' where vs: "vs = v0 # vs'" and lvs: "length vs' = length rest"
    by (cases vs) auto
  let ?out1 = "out[i := selfDescribing_entry s i d0 v0]"
  from Cons.prems(3) have lo: "Suc i + length rest \<le> length ?out1" and i: "i < length out"
    by simp_all
  from Cons.prems(4)
  have hd: "Component c0 = Some d0"
      "walkOutput s (name_crumb b (resolved_name s i d0)) c0 = Return v0 None"
    and tl: "\<forall>j<length rest. Component (rest ! j) = Some (ds' ! j) \<and>
           walkOutput s (name_crumb b (resolved_name s (Suc i + j) (ds' ! j))) (rest ! j) =
             Return (vs' ! j) None"
    by (simp_all add: All_less_Suc2 ds vs)
  from hd have step: "selfDescribing_loop s b (c0 # rest) i out =
      selfDescribing_loop s b rest (Suc i) ?out1"
    by (simp add: selfDescribing_loop_Cons_Some selfDescribing_entry_def
        del: selfDescribing_loop.simps)
  have t: "take (Suc i) ?out1 = take i out @ [selfDescribing_entry s i d0 v0]"
    using i by (simp add: take_Suc_conv_app_nth)
  have m: "map (\<lambda>j. selfDescribing_entry s (i + j) (ds ! j) (vs ! j)) [0..<length (c0 # rest)] =
      selfDescribing_entry s i d0 v0 #
      map (\<lambda>j. selfDescribing_entry s (Suc i + j) (ds' ! j) (vs' ! j)) [0..<length rest]"
    by (simp add: map_upt_Suc ds vs del: upt_Suc)
  show ?case
    unfolding step Cons.IH [OF lds lvs lo tl] t m by simp
qed

text \<open>
  C3, as amended. In the mode \<open>FormatAsSelfDescribingArrays\<close>, when every child has a
  descriptor and is encoded without error under the breadcrumb of its resolved name, the
  tuple encoder returns the array that holds, for each child in order, the object with
  \<open>name\<close> the declared name or, when that is empty, the generated name for the index,
  \<open>type\<close> the signature of the descriptor and \<open>value\<close> the encoded child. When
  the children before some child are encoded and that child has no descriptor, the tuple
  encoder returns no array: it fails with the error \<open>MsgBadABITypeComponent\<close> that
  the walker raises on that child.
\<close>

theorem selfDescribing_layout:
  "(s_ts s = FormatAsSelfDescribingArrays \<and>
    length ds = length (Children cv) \<and> length vs = length (Children cv) \<and>
    (\<forall>j<length (Children cv). Component (Children cv ! j) = Some (ds ! j) \<and>
        walkOutput s (name_crumb b (resolved_name s j (ds ! j))) (Children cv ! j) =
          Return (vs ! j) None) \<longrightarrow>
    serializeTuple s b cv =
      Return (JArray (map (\<lambda>j. selfDescribing_entry s j (ds ! j) (vs ! j))
                        [0..<length (Children cv)])) None) \<and>
   (s_ts s = FormatAsSelfDescribingArrays \<and> Children cv = pre @ c # post \<and>
    (\<forall>j<length pre. \<exists>x. walkOutput s (tuple_crumb s b j (pre ! j)) (pre ! j) = Return x None) \<and>
    Component c = None \<longrightarrow>
    serializeTuple s b cv = Return JNil (Some (MsgBadABITypeComponentValue c)))"
proof (intro conjI impI)
  assume a: "s_ts s = FormatAsSelfDescribingArrays \<and>
    length ds = length (Children cv) \<and> length vs = length (Children cv) \<and>
    (\<forall>j<length (Children cv). Component (Children cv ! j) = Some (ds ! j) \<and>
        walkOutput s (name_crumb b (resolved_name s j (ds ! j))) (Children cv ! j) =
          Return (vs ! j) None)"
  then have "\<forall>j<length (Children cv). Component (Children cv ! j) = Some (ds ! j) \<and>
        walkOutput s (name_crumb b (resolved_name s (0 + j) (ds ! j))) (Children cv ! j) =
          Return (vs ! j) None"
    by simp
  from selfDescribing_loop_result [where i = 0 and out = "replicate (length (Children cv)) JNil",
      OF _ _ _ this] a
  show "serializeTuple s b cv =
      Return (JArray (map (\<lambda>j. selfDescribing_entry s j (ds ! j) (vs ! j))
                        [0..<length (Children cv)])) None"
    by (cases cv)
       (simp add: FormatAsObjects_def FormatAsFlatArrays_def FormatAsSelfDescribingArrays_def)
next
  assume a: "s_ts s = FormatAsSelfDescribingArrays \<and> Children cv = pre @ c # post \<and>
    (\<forall>j<length pre. \<exists>x. walkOutput s (tuple_crumb s b j (pre ! j)) (pre ! j) = Return x None) \<and>
    Component c = None"
  then have "walkOutput s (tuple_crumb s b (length pre) c) c =
      Return JNil (Some (MsgBadABITypeComponentValue c))"
    by (simp add: walkOutput_None)
  moreover from a have "known_mode (s_ts s)" "tuple_visits s c"
    by (simp_all add: known_mode_def tuple_visits_def FormatAsObjects_def
        FormatAsSelfDescribingArrays_def)
  ultimately show "serializeTuple s b cv = Return JNil (Some (MsgBadABITypeComponentValue c))"
    using a by (intro serializeTuple_aborts) auto
qed

text \<open>
  A tuple whose second child has no descriptor is not encoded to an array with an entry
  under a generated name: the encoding fails.
\<close>

theorem selfDescribing_nil_descriptor_fails:
  "serializeTuple (serializer 2) []
     (node TupleComponent [] ''(uint8,uint8)''
        [leaf ElementaryTypeUint ''a'' ''uint8'' (VBigInt 1),
         ComponentValue None (VBigInt 2) []]) =
   Return JNil (Some (MsgBadABITypeComponentValue (ComponentValue None (VBigInt 2) [])))"
  by (simp add: example_defs serializeElementaryType_def)


theorem selfDescribing_layout_witness:
  "serializeTuple (serializer 2) ''t''
     (node TupleComponent [] ''(uint256,bool)''
        [leaf ElementaryTypeUint ''a'' ''uint256'' (VBigInt 1),
         leaf ElementaryTypeBool [] ''bool'' (VBigInt 1)]) =
   Return (JArray
     [JObject [(''name'', JString ''a''), (''type'', JString ''uint256''), (''value'', JString ''1'')],
      JObject [(''name'', JString ''1''), (''type'', JString ''bool''), (''value'', JBool True)]])
     None \<and>
   serializeTuple (serializer 2) ''t''
     (node TupleComponent [] ''(uint256,bool)''
        [leaf ElementaryTypeUint ''a'' ''uint256'' (VBigInt 1),
         ComponentValue None (VBigInt 1) [],
         leaf ElementaryTypeBool [] ''bool'' (VString ''yes'')]) =
   Return JNil (Some (MsgBadABITypeComponentValue (ComponentValue None (VBigInt 1) [])))"
proof -
  let ?s = "serializer 2"
  let ?a = "leaf ElementaryTypeUint ''a'' ''uint256'' (VBigInt 1)"
  let ?f = "leaf ElementaryTypeBool [] ''bool'' (VBigInt 1)"
  let ?n = "ComponentValue None (VBigInt 1) []"
  let ?p = "leaf ElementaryTypeBool [] ''bool'' (VString ''yes'')"
  let ?cv = "node TupleComponent [] ''(uint256,bool)'' [?a, ?f]"
  let ?cw = "node TupleComponent [] ''(uint256,bool)'' [?a, ?n, ?p]"
  let ?ds = "[elementary ElementaryTypeUint ''a'' ''uint256'', elementary ElementaryTypeBool [] ''bool'']"
  let ?vs = "[JString ''1'', JBool True]"
  have m: "s_ts ?s = FormatAsSelfDescribingArrays"
    by (simp add: example_defs)
  have ch: "Children ?cv = [?a, ?f]" "Children ?cw = [?a] @ ?n # [?p]"
    by (simp_all add: node_def)
  have l: "length ?ds = length (Children ?cv)" "length ?vs = length (Children ?cv)"
    by (simp_all add: node_def)
  have w: "\<forall>j<length (Children ?cv). Component (Children ?cv ! j) = Some (?ds ! j) \<and>
        walkOutput ?s (name_crumb ''t'' (resolved_name ?s j (?ds ! j))) (Children ?cv ! j) =
          Return (?vs ! j) None"
    unfolding ch
    by (simp add: All_less_Suc2 example_defs serializeElementaryType_def big_Int_String_def
        FormatUint10.simps digit_char_def Int64_def)
  have p: "\<forall>j<length [?a]. \<exists>x. walkOutput ?s (tuple_crumb ?s ''t'' j ([?a] ! j)) ([?a] ! j) =
      Return x None"
    by (simp add: example_defs serializeElementaryType_def)
  have n: "Component ?n = None"
    by simp
  have e: "map (\<lambda>j. selfDescribing_entry ?s j (?ds ! j) (?vs ! j)) [0..<length (Children ?cv)] =
     [JObject [(''name'', JString ''a''), (''type'', JString ''uint256''), (''value'', JString ''1'')],
      JObject [(''name'', JString ''1''), (''type'', JString ''bool''), (''value'', JBool True)]]"
    unfolding ch
    by (simp add: selfDescribing_entry_def resolved_name_def example_defs FormatUint10.simps
        digit_char_def upt_rec)
  from selfDescribing_layout [where s = ?s and cv = ?cv and ds = ?ds and vs = ?vs and b = "''t''"]
    m l w e
  have 1: "serializeTuple ?s ''t'' ?cv = Return (JArray
     [JObject [(''name'', JString ''a''), (''type'', JString ''uint256''), (''value'', JString ''1'')],
      JObject [(''name'', JString ''1''), (''type'', JString ''bool''), (''value'', JBool True)]])
     None"
    by simp
  from selfDescribing_layout [where s = ?s and cv = ?cw and pre = "[?a]" and c = ?n
      and post = "[?p]" and b = "''t''"] m ch(2) p n
  have 2: "serializeTuple ?s ''t'' ?cw = Return JNil (Some (MsgBadABITypeComponentValue ?n))"
    by blast
  from 1 2 show ?thesis by simp
qed

end
